theory Spec2Isabelle
  imports Main "HOL-Library.Sublist"
begin

section \<open>Strings\<close>

text \<open>
  JavaScript strings are read as lists of code units (\<^typ>\<open>string\<close>).  The control tags,
  notices and prompt templates of \<^verbatim>\<open>handler.ts\<close> are ASCII, and every string operation
  used there (\<^verbatim>\<open>includes\<close>, \<^verbatim>\<open>startsWith\<close>, \<^verbatim>\<open>trim\<close>, \<^verbatim>\<open>join\<close>,
  concatenation) acts on the list of code units.
\<close>

definition str_includes :: "string \<Rightarrow> string \<Rightarrow> bool" where
  "str_includes s t = sublist t s"

definition startsWith :: "string \<Rightarrow> string \<Rightarrow> bool" where
  "startsWith s t = prefix t s"

text \<open>White space removed by \<^verbatim>\<open>String.prototype.trim\<close>, among the code units below 256.\<close>

definition is_ws :: "char \<Rightarrow> bool" where
  "is_ws c = (of_char c \<in> {9, 10, 11, 12, 13, 32, 160 :: nat})"

definition trim :: "string \<Rightarrow> string" where
  "trim s = rev (dropWhile is_ws (rev (dropWhile is_ws s)))"

fun join :: "string \<Rightarrow> string list \<Rightarrow> string" where
  "join sep [] = []"
| "join sep [x] = x"
| "join sep (x # y # ys) = x @ sep @ join sep (y # ys)"

text \<open>Decimal rendering of a non-negative integer, as template literals print it.\<close>

function show_nat :: "nat \<Rightarrow> string" where
  "show_nat n =
     (if n < 10 then [''0123456789'' ! n]
      else show_nat (n div 10) @ [''0123456789'' ! (n mod 10)])"
  by pat_completeness auto
termination
  by (relation "measure id") auto

declare show_nat.simps [simp del]

section \<open>Errors, requests and effects\<close>

text \<open>
  A thrown value, with the three properties the handler inspects: \<^verbatim>\<open>error.name\<close>,
  \<^verbatim>\<open>error.status\<close> and \<^verbatim>\<open>error.message\<close>.
\<close>

record js_error =
  name :: string
  status :: "int option"
  message :: "string option"

definition new_Error :: "string \<Rightarrow> js_error" where
  "new_Error msg = \<lparr>name = ''Error'', status = None, message = Some msg\<rparr>"

text \<open>
  The parameters of one completion request.  The conversation contents and the system
  instruction are built from the history, the attachments, the memory context and the
  clock; of these the request keeps the user part (\<^verbatim>\<open>currentPrompt\<close>), the web-search
  context, the thinking budget and the model identifier.
\<close>

record request =
  model :: string
  userText :: string
  external_web_search :: string
  thinkingBudget :: nat

text \<open>
  The observable effects, in the order they happen: a string handed to the output
  callback, a call of \<^verbatim>\<open>ai.models.generateContentStream\<close>, and a \<^verbatim>\<open>setTimeout\<close> wait
  (milliseconds).
\<close>

datatype event = Emit string | Call request | Sleep nat

fun is_Call :: "event \<Rightarrow> bool" where
  "is_Call (Call r) = True"
| "is_Call _ = False"

fun sleeps :: "event list \<Rightarrow> nat list" where
  "sleeps [] = []"
| "sleeps (Sleep d # es) = d # sleeps es"
| "sleeps (e # es) = sleeps es"

section \<open>The streaming request wrapper\<close>

definition DEFAULT_MODEL :: string where
  "DEFAULT_MODEL = ''gemini-2.5-flash''"

definition isQuotaError :: "js_error \<Rightarrow> bool" where
  "isQuotaError error =
     (status error = Some 429 \<or>
      (case message error of None \<Rightarrow> False | Some m \<Rightarrow> m \<noteq> [] \<and> str_includes m ''429'') \<or>
      (case message error of None \<Rightarrow> False | Some m \<Rightarrow> m \<noteq> [] \<and> str_includes m ''quota''))"

definition retry_delay :: "nat \<Rightarrow> nat" where
  "retry_delay attempt = 2 ^ attempt * 2000 + 1000"

text \<open>\<^verbatim>\<open>Math.round(delay/1000)\<close> rounds half up.\<close>

definition retry_notice :: "nat \<Rightarrow> string" where
  "retry_notice delay =
     ''(Rate limit hit. Retrying in '' @ show_nat ((delay + 500) div 1000) @ ''s...)''"

text \<open>
  The optional callback \<^verbatim>\<open>onRetry\<close> is given by the strings it hands on to the output
  (the caller passes \<^verbatim>\<open>(msg) => onStreamChunk?.(msg)\<close>).
\<close>

definition on_retry :: "(string \<Rightarrow> string list) option \<Rightarrow> string \<Rightarrow> event list" where
  "on_retry onRetry msg = (case onRetry of None \<Rightarrow> [] | Some f \<Rightarrow> map Emit (f msg))"

text \<open>
  How the wrapper ends: it returns the generator, rethrows the provider's error
  (\<^verbatim>\<open>throw error\<close>), or reaches the statement after the loop
  (\<^verbatim>\<open>throw new Error("Max retries exceeded")\<close>).
\<close>

datatype 'g retry_result = Generator 'g | Rethrow js_error | MaxRetriesExceeded

fun thrown :: "'g retry_result \<Rightarrow> js_error option" where
  "thrown (Generator g) = None"
| "thrown (Rethrow e) = Some e"
| "thrown MaxRetriesExceeded = Some (new_Error ''Max retries exceeded'')"

text \<open>
  The \<^verbatim>\<open>for\<close> loop of \<^verbatim>\<open>generateContentStreamWithRetry\<close>.  The provider \<open>ai\<close> gives the
  outcome of its \<open>attempt\<close>-th call: a generator, or the error it throws.  \<open>retries\<close> is
  a JavaScript number, read as an integer; the result comes with the effects performed.
\<close>

function retry_loop ::
  "(nat \<Rightarrow> request \<Rightarrow> js_error + 'g) \<Rightarrow> request \<Rightarrow> int \<Rightarrow> (string \<Rightarrow> string list) option \<Rightarrow>
   nat \<Rightarrow> 'g retry_result \<times> event list" where
  "retry_loop ai params retries onRetry attempt =
     (if int attempt \<le> retries then
        (case ai attempt params of
           Inr generator \<Rightarrow> (Generator generator, [Call params])
         | Inl error \<Rightarrow>
             if isQuotaError error \<and> int attempt < retries then
               apsnd (\<lambda>evs. [Call params] @ on_retry onRetry (retry_notice (retry_delay attempt))
                                @ [Sleep (retry_delay attempt)] @ evs)
                 (retry_loop ai params retries onRetry (attempt + 1))
             else (Rethrow error, [Call params]))
      else (MaxRetriesExceeded, []))"
  by pat_completeness auto
termination
  by (relation "measure (\<lambda>(ai, params, retries, onRetry, attempt). nat (retries + 1 - int attempt))")
    auto

declare retry_loop.simps [simp del]

text \<open>\<^verbatim>\<open>if (!params.model) params.model = 'gemini-2.5-flash'\<close>\<close>

definition with_model :: "request \<Rightarrow> request" where
  "with_model params = (if model params = [] then params\<lparr>model := DEFAULT_MODEL\<rparr> else params)"

definition generateContentStreamWithRetry ::
  "(nat \<Rightarrow> request \<Rightarrow> js_error + 'g) \<Rightarrow> request \<Rightarrow> int \<Rightarrow> (string \<Rightarrow> string list) option \<Rightarrow>
   'g retry_result \<times> event list" where
  "generateContentStreamWithRetry ai params retries onRetry =
     retry_loop ai (with_model params) retries onRetry 0"

text \<open>The effects of one failed attempt that is retried, and what an attempt settles.\<close>

definition retry_events :: "(string \<Rightarrow> string list) option \<Rightarrow> request \<Rightarrow> nat \<Rightarrow> event list" where
  "retry_events onRetry params attempt =
     [Call params] @ on_retry onRetry (retry_notice (retry_delay attempt))
       @ [Sleep (retry_delay attempt)]"

definition quota_failure :: "js_error + 'g \<Rightarrow> bool" where
  "quota_failure r = (case r of Inl e \<Rightarrow> isQuotaError e | Inr g \<Rightarrow> False)"

fun settled :: "js_error + 'g \<Rightarrow> 'g retry_result" where
  "settled (Inr g) = Generator g"
| "settled (Inl e) = Rethrow e"

section \<open>Control tags\<close>

text \<open>
  \<open>split_first pat s\<close> cuts \<open>s\<close> at the first occurrence of \<open>pat\<close>: the text before it and
  the text after it.
\<close>

fun split_first :: "string \<Rightarrow> string \<Rightarrow> (string \<times> string) option" where
  "split_first pat [] = (if pat = [] then Some ([], []) else None)"
| "split_first pat (c # cs) =
     (if prefix pat (c # cs) then Some ([], drop (length pat) (c # cs))
      else map_option (\<lambda>(before, after). (c # before, after)) (split_first pat cs))"

text \<open>
  The regular expressions of the handler all have the form \<^verbatim>\<open>/<T>([\s\S]*?)<\/T>/\<close>: a
  literal opening tag, a lazy run of arbitrary characters, a literal closing tag.  The
  leftmost match starts at the first opening tag and ends at the first closing tag after
  it; there is no match when either is missing.  \<open>tag_match\<close> gives capture group 1 and
  the text after the match.
\<close>

definition tag_match :: "string \<Rightarrow> string \<Rightarrow> string \<Rightarrow> (string \<times> string) option" where
  "tag_match opening closing s =
     (case split_first opening s of
        None \<Rightarrow> None
      | Some (before, rest) \<Rightarrow>
          (case split_first closing rest of
             None \<Rightarrow> None
           | Some (inner, after) \<Rightarrow> Some (inner, after)))"

text \<open>\<^verbatim>\<open>s.match(/<T>([\s\S]*?)<\/T>/)\<close>, as its capture group \<^verbatim>\<open>[1]\<close>.\<close>

definition match1 :: "string \<Rightarrow> string \<Rightarrow> string \<Rightarrow> string option" where
  "match1 opening closing s = map_option fst (tag_match opening closing s)"

text \<open>
  \<^verbatim>\<open>[...generatedThisLoop.matchAll(/<SEARCH>([\s\S]*?)<\/SEARCH>/g)]\<close>, as the list of the
  capture groups \<^verbatim>\<open>m[1]\<close>: each search resumes after the previous match.
\<close>

function search_matches :: "string \<Rightarrow> string list" where
  "search_matches s =
     (case tag_match ''<SEARCH>'' ''</SEARCH>'' s of
        None \<Rightarrow> []
      | Some (inner, after) \<Rightarrow> inner # search_matches after)"
  by pat_completeness auto
termination
proof (relation "measure length")
  show "wf (measure length)" by simp
next
  fix s :: string and x2 inner after
  assume m: "tag_match ''<SEARCH>'' ''</SEARCH>'' s = Some x2" and x2: "(inner, after) = x2"
  have cut: "split_first pat t = Some (b, a) \<Longrightarrow> t = b @ pat @ a" for pat t b a
  proof (induction t arbitrary: b)
    case Nil
    then show ?case by (simp split: if_splits)
  next
    case (Cons c cs)
    show ?case
    proof (cases "prefix pat (c # cs)")
      case True
      with Cons.prems have "b = []" "a = drop (length pat) (c # cs)" by simp_all
      with True show ?thesis by (metis append_Nil prefixE append_eq_conv_conj)
    next
      case False
      with Cons.prems obtain b' where "split_first pat cs = Some (b', a)" "b = c # b'"
        by (auto split: prod.splits)
      with Cons.IH show ?thesis by simp
    qed
  qed
  from m x2 obtain before rest where
    r: "split_first ''<SEARCH>'' s = Some (before, rest)"
    and a: "split_first ''</SEARCH>'' rest = Some (inner, after)"
    by (auto simp: tag_match_def split: option.splits prod.splits)
  from cut[OF r] cut[OF a] have "length after < length s" by simp
  then show "(after, s) \<in> measure length" by simp
qed

declare search_matches.simps [simp del]

definition deepMatch :: "string \<Rightarrow> string option" where
  "deepMatch gen = match1 ''<DEEP>'' ''</DEEP>'' gen"

definition imageMatch :: "string \<Rightarrow> string option" where
  "imageMatch gen = match1 ''<IMAGE>'' ''</IMAGE>'' gen"

definition projectMatch :: "string \<Rightarrow> string option" where
  "projectMatch gen = match1 ''<PROJECT>'' ''</PROJECT>'' gen"

definition canvasMatch :: "string \<Rightarrow> string option" where
  "canvasMatch gen =
     (case match1 ''<CANVAS_TRIGGER>'' ''</CANVAS_TRIGGER>'' gen of
        Some c \<Rightarrow> Some c
      | None \<Rightarrow>
          (case match1 ''<CANVAS_TRIGGER>'' ''</CANVASTRIGGER>'' gen of
             Some c \<Rightarrow> Some c
           | None \<Rightarrow> match1 ''<CANVAS>'' ''</CANVAS>'' gen))"

definition studyMatch :: "string \<Rightarrow> string option" where
  "studyMatch gen = match1 ''<STUDY>'' ''</STUDY>'' gen"

text \<open>The check made after every chunk: a closing tag has arrived.\<close>

definition closing_tag_seen :: "string \<Rightarrow> bool" where
  "closing_tag_seen generatedThisLoop =
     (str_includes generatedThisLoop ''</CANVAS_TRIGGER>'' \<or>
      str_includes generatedThisLoop ''</CANVASTRIGGER>'' \<or>
      str_includes generatedThisLoop ''</SEARCH>'' \<or>
      str_includes generatedThisLoop ''</DEEP>'' \<or>
      str_includes generatedThisLoop ''</IMAGE>'' \<or>
      str_includes generatedThisLoop ''</PROJECT>'' \<or>
      str_includes generatedThisLoop ''</CANVAS>'' \<or>
      str_includes generatedThisLoop ''</STUDY>'')"

section \<open>Data model of the agent\<close>

datatype RouterAction = SIMPLE | SEARCH | DEEP_SEARCH | IMAGE | PROJECT | CANVAS | STUDY

text \<open>\<^verbatim>\<open>thinkingMode\<close> is compared with three literals; every other value is \<open>OtherMode\<close>.\<close>

datatype ThinkingMode = Instant | Deep | Think | OtherMode

text \<open>
  The fields of \<^verbatim>\<open>AgentInput\<close> that decide the control flow.  \<open>onStreamChunk\<close> says
  whether the optional output callback is present; \<open>project\<close> and \<open>chat\<close> are the two
  identifiers copied into the result.
\<close>

record AgentInput =
  prompt :: string
  input_model :: "string option"
  thinkingMode :: ThinkingMode
  preferred_deep_model :: "string option"
  openrouter_api_key :: "string option"
  onStreamChunk :: bool
  project :: string
  chat :: string

record WebSearchResult =
  url :: string
  title :: string
  snippet :: "string option"
  content :: "string option"

datatype grounding = Web string string

text \<open>
  What the stream generator delivers next: a chunk, or an exception.  A chunk carries
  the value of \<^verbatim>\<open>signal?.aborted\<close> at the moment it is delivered, its \<^verbatim>\<open>text\<close> (empty
  when absent) and the grounding chunks of its first candidate, if any.
\<close>

datatype chunk_item = Chunk bool string "grounding list option" | Fail js_error

text \<open>
  The collaborators the handler calls, none of them in this repository's sources:
  the router, the memory store, the search heuristic, the search and fetch services (told
  apart by the loop iteration and the position in the batch), the completion provider
  (by loop iteration and attempt), the abort signal at the top of an iteration, the free
  completion provider of instant mode, and the error formatter.
\<close>

record world =
  route :: "js_error + RouterAction"
  getContext :: "js_error option"
  shouldUseExternalSearch :: "string \<Rightarrow> bool \<Rightarrow> bool \<Rightarrow> bool"
  runMcpWebSearch :: "nat \<times> nat \<Rightarrow> string \<Rightarrow> nat \<Rightarrow> js_error + WebSearchResult list"
  fetchContentsForResults ::
    "nat \<times> nat \<Rightarrow> WebSearchResult list \<Rightarrow> nat \<Rightarrow> js_error + WebSearchResult list"
  generateContentStream :: "nat \<Rightarrow> nat \<Rightarrow> request \<Rightarrow> js_error + chunk_item list"
  signal_aborted :: "nat \<Rightarrow> bool"
  generateFreeCompletion :: "js_error + string"
  getUserFriendlyError :: "js_error \<Rightarrow> string"

text \<open>The outgoing message record.\<close>

record agent_message =
  project_id :: string
  chat_id :: string
  sender :: string
  msg_text :: string
  groundingMetadata :: "grounding list option"

datatype outcome = Returned agent_message | Thrown js_error

text \<open>The variables of the dispatch loop, and the effects so far.\<close>

record loop_state =
  currentAction :: RouterAction
  currentPrompt :: string
  finalResponseText :: string
  fallbackSearchContext :: string
  metadataPayload :: "grounding list option"
  routing_parameters :: "string option"
  events :: "event list"

text \<open>The values fixed before the loop starts.\<close>

record settings =
  effective_model :: string
  isNative :: bool
  modelSupportsSearch :: bool
  budget :: nat
  externalSearchContext :: string

text \<open>\<^verbatim>\<open>onStreamChunk?.(s)\<close>\<close>

definition emit :: "AgentInput \<Rightarrow> string \<Rightarrow> event list" where
  "emit inp s = (if onStreamChunk inp then [Emit s] else [])"

definition isGoogleModel :: "string \<Rightarrow> bool" where
  "isGoogleModel m =
     (if m = [] then True
      else startsWith m ''gemini'' \<or> startsWith m ''veo'' \<or> str_includes m ''google'')"

text \<open>A string option read as a JavaScript condition: absent and empty are false.\<close>

definition truthy :: "string option \<Rightarrow> bool" where
  "truthy v = (case v of None \<Rightarrow> False | Some x \<Rightarrow> x \<noteq> [])"

section \<open>Consuming the stream\<close>

text \<open>
  How the streaming part of an iteration ends: the generator is exhausted, a closing tag
  has been seen, the abort signal has been seen, or an exception was thrown (by the
  request or by the generator).
\<close>

datatype stream_end = Exhausted | TagSeen | AbortSeen | Threw js_error

definition push_grounding :: "grounding list option \<Rightarrow> grounding list \<Rightarrow> grounding list option" where
  "push_grounding payload new = Some ((case payload of None \<Rightarrow> [] | Some ms \<Rightarrow> ms) @ new)"

text \<open>
  The \<^verbatim>\<open>for await\<close> loop over the generator: how it ends, the text generated in this
  iteration, and the loop variables.
\<close>

fun consume ::
  "AgentInput \<Rightarrow> bool \<Rightarrow> chunk_item list \<Rightarrow> string \<Rightarrow> loop_state \<Rightarrow>
   stream_end \<times> string \<times> loop_state" where
  "consume inp native [] generatedThisLoop st = (Exhausted, generatedThisLoop, st)"
| "consume inp native (Fail e # rest) generatedThisLoop st = (Threw e, generatedThisLoop, st)"
| "consume inp native (Chunk aborted txt groundingChunks # rest) generatedThisLoop st =
     (if aborted then (AbortSeen, generatedThisLoop, st)
      else if txt \<noteq> [] then
        (let gen' = generatedThisLoop @ txt;
             st' = st\<lparr>finalResponseText := finalResponseText st @ txt,
                      events := events st @ emit inp txt,
                      metadataPayload :=
                        (if native then
                           (case groundingChunks of
                              None \<Rightarrow> metadataPayload st
                            | Some cs \<Rightarrow> push_grounding (metadataPayload st) cs)
                         else metadataPayload st)\<rparr>
         in if closing_tag_seen gen' then (TagSeen, gen', st')
            else consume inp native rest gen' st')
      else consume inp native rest generatedThisLoop st)"

section \<open>After the stream: searches and tag transitions\<close>

definition dq :: string where
  "dq = [CHR 0x22]"

text \<open>One query of the batch: a failure of the search or of the fetch gives no pages.\<close>

definition run_query :: "world \<Rightarrow> nat \<Rightarrow> nat \<Rightarrow> string \<Rightarrow> string \<times> WebSearchResult list" where
  "run_query w loopCount i q =
     (case runMcpWebSearch w (loopCount, i) q 20 of
        Inl e \<Rightarrow> (q, [])
      | Inr results \<Rightarrow>
          (case fetchContentsForResults w (loopCount, i) results 20 of
             Inl e \<Rightarrow> (q, [])
           | Inr pages \<Rightarrow> (q, pages)))"

definition parallelResults ::
  "world \<Rightarrow> nat \<Rightarrow> string list \<Rightarrow> (string \<times> WebSearchResult list) list" where
  "parallelResults w loopCount queries =
     map (\<lambda>(i, q). run_query w loopCount i q) (zip [0..<length queries] queries)"

text \<open>A template literal prints an absent value as \<^verbatim>\<open>undefined\<close>.\<close>

definition interpolate :: "string option \<Rightarrow> string" where
  "interpolate v = (case v of None \<Rightarrow> ''undefined'' | Some x \<Rightarrow> x)"

definition render_page :: "nat \<times> WebSearchResult \<Rightarrow> string" where
  "render_page ip =
     (case ip of (i, p) \<Rightarrow>
        ''['' @ show_nat (i + 1) @ ''] '' @ title p @ '' ('' @ url p @ ''):\<newline>''
          @ interpolate (content p))"

definition aggregate :: "string \<times> WebSearchResult list \<Rightarrow> string" where
  "aggregate res =
     (case res of (query, pages) \<Rightarrow>
        ''\<newline>\<newline>=== WEB RESULTS FOR QUERY: '' @ dq @ query @ dq @ '' ===\<newline>''
          @ join ''\<newline>\<newline>'' (map render_page (zip [0..<length pages] pages)))"

definition synthesisPrompt :: "string \<Rightarrow> string list \<Rightarrow> string \<Rightarrow> string" where
  "synthesisPrompt user_prompt queries context =
     ''USER ORIGINALLY ASKED: '' @ user_prompt
       @ ''\<newline>\<newline>I have performed the following searches based on my previous thought process:\<newline>''
       @ join ''\<newline>'' (map (\<lambda>q. ''- '' @ q) queries)
       @ ''\<newline>\<newline>SEARCH CONTEXT:\<newline>'' @ context
       @ ''\<newline>\<newline>INSTRUCTIONS: Synthesize a comprehensive answer to the user's original query using this search data. Cite sources using [1], [2] format. Do NOT repeat the <SEARCH> tags.''"

text \<open>
  The multi-search block.  \<open>Some st'\<close> is its \<^verbatim>\<open>continue\<close>, with the variables it has
  set; \<open>None\<close> means that control goes on to the tag matches below it.
\<close>

definition multi_search ::
  "world \<Rightarrow> AgentInput \<Rightarrow> settings \<Rightarrow> nat \<Rightarrow> string list \<Rightarrow> loop_state \<Rightarrow> loop_state option" where
  "multi_search w inp cfg loopCount searchMatches st =
     (if searchMatches \<noteq> [] then
        (let queries = map trim searchMatches in
         if shouldUseExternalSearch w (hd queries) (modelSupportsSearch cfg) True then
           (let validResults = filter (\<lambda>r. snd r \<noteq> []) (parallelResults w loopCount queries) in
            if validResults \<noteq> [] then
              (let allNewMeta = concat (map (\<lambda>res. map (\<lambda>p. Web (url p) (title p)) (snd res)) validResults);
                   aggregatedContext = concat (map aggregate validResults)
               in Some (st\<lparr>metadataPayload := push_grounding (metadataPayload st) allNewMeta,
                           fallbackSearchContext := aggregatedContext,
                           currentPrompt := synthesisPrompt (prompt inp) queries aggregatedContext,
                           currentAction := SIMPLE\<rparr>))
            else None)
         else None)
      else None)"

datatype step = Continue loop_state | Return loop_state | Throw js_error loop_state

text \<open>The last statements of an iteration: the fallback text, then the \<^verbatim>\<open>return\<close>.\<close>

definition finalize :: "AgentInput \<Rightarrow> loop_state \<Rightarrow> loop_state" where
  "finalize inp st =
     (if trim (finalResponseText st) = [] \<and> fallbackSearchContext st \<noteq> [] then
        st\<lparr>finalResponseText := fallbackSearchContext st,
           events := events st @ emit inp (fallbackSearchContext st)\<rparr>
      else st)"

text \<open>The chain of \<^verbatim>\<open>if (...Match) { ...; continue; }\<close> statements, in source order.\<close>

definition tag_transitions :: "AgentInput \<Rightarrow> string \<Rightarrow> string list \<Rightarrow> loop_state \<Rightarrow> step" where
  "tag_transitions inp gen searchMatches st =
     (case deepMatch gen of
        Some d \<Rightarrow> Continue (st\<lparr>currentAction := DEEP_SEARCH, currentPrompt := d\<rparr>)
      | None \<Rightarrow>
     if length searchMatches = 1 \<and> fallbackSearchContext st = [] then
       Continue (st\<lparr>currentAction := SEARCH, currentPrompt := hd searchMatches\<rparr>)
     else
     (case imageMatch gen of
        Some i \<Rightarrow> Continue (st\<lparr>currentAction := IMAGE, currentPrompt := i,
                                routing_parameters := Some i\<rparr>)
      | None \<Rightarrow>
     (case projectMatch gen of
        Some p \<Rightarrow> Continue (st\<lparr>currentAction := PROJECT, currentPrompt := p\<rparr>)
      | None \<Rightarrow>
     (case canvasMatch gen of
        Some c \<Rightarrow> Continue (st\<lparr>currentAction := CANVAS, currentPrompt := c\<rparr>)
      | None \<Rightarrow>
     (case studyMatch gen of
        Some y \<Rightarrow> Continue (st\<lparr>currentAction := STUDY, currentPrompt := y\<rparr>)
      | None \<Rightarrow> Return (finalize inp st))))))"

definition post_stream ::
  "world \<Rightarrow> AgentInput \<Rightarrow> settings \<Rightarrow> nat \<Rightarrow> string \<Rightarrow> loop_state \<Rightarrow> step" where
  "post_stream w inp cfg loopCount gen st =
     (let searchMatches = search_matches gen in
      case multi_search w inp cfg loopCount searchMatches st of
        Some st' \<Rightarrow> Continue st'
      | None \<Rightarrow> tag_transitions inp gen searchMatches st)"

section \<open>The dispatch loop\<close>

definition MAX_LOOPS :: nat where
  "MAX_LOOPS = 6"

text \<open>
  The first half of an iteration: the request through the retry wrapper (three retries,
  notices forwarded to the output callback) and the consumption of the stream.
\<close>

definition stream_phase ::
  "world \<Rightarrow> AgentInput \<Rightarrow> settings \<Rightarrow> nat \<Rightarrow> loop_state \<Rightarrow> stream_end \<times> string \<times> loop_state" where
  "stream_phase w inp cfg loopCount st =
     (let params = \<lparr>model = effective_model cfg, userText = currentPrompt st,
                     external_web_search = externalSearchContext cfg,
                     thinkingBudget = budget cfg\<rparr>;
          attempt = generateContentStreamWithRetry (generateContentStream w loopCount) params 3
                      (Some (\<lambda>msg. if onStreamChunk inp then [msg] else []));
          st1 = st\<lparr>events := events st @ snd attempt\<rparr>
      in case fst attempt of
           Generator generator \<Rightarrow> consume inp (isNative cfg) generator [] st1
         | Rethrow e \<Rightarrow> (Threw e, [], st1)
         | MaxRetriesExceeded \<Rightarrow> (Threw (new_Error ''Max retries exceeded''), [], st1))"

text \<open>The model identifier the provider is called with, after the wrapper's default.\<close>

definition used_model :: "settings \<Rightarrow> string" where
  "used_model cfg = (if effective_model cfg = [] then DEFAULT_MODEL else effective_model cfg)"

text \<open>
  One pass through the body of the \<^verbatim>\<open>while\<close> loop, after \<^verbatim>\<open>loopCount++\<close>.  The
  \<^verbatim>\<open>switch\<close> has the single branch \<^verbatim>\<open>case 'SIMPLE': default:\<close>, so every action runs it.
  An exception leaves the loop with the variables as they are at that moment.
\<close>

definition loop_body :: "world \<Rightarrow> AgentInput \<Rightarrow> settings \<Rightarrow> nat \<Rightarrow> loop_state \<Rightarrow> step" where
  "loop_body w inp cfg loopCount st =
     (case stream_phase w inp cfg loopCount st of
        (Threw e, gen, st2) \<Rightarrow> Throw e st2
      | (ended, gen, st2) \<Rightarrow> post_stream w inp cfg loopCount gen st2)"

text \<open>
  How the loop is left: the \<^verbatim>\<open>while\<close> condition fails, the \<^verbatim>\<open>break\<close> at its top is
  taken, the \<^verbatim>\<open>return\<close> at the end of an iteration is reached, or an exception goes to
  the \<^verbatim>\<open>catch\<close> clause.
\<close>

datatype loop_exit = BoundReached | AbortedAtTop | Finalized | Caught js_error

text \<open>
  The \<^verbatim>\<open>while (loopCount < MAX_LOOPS)\<close> loop.  It gives the exit taken, the final value of
  \<^verbatim>\<open>loopCount\<close> (the number of iterations begun) and the final variables.
\<close>

function dispatch_loop ::
  "world \<Rightarrow> AgentInput \<Rightarrow> settings \<Rightarrow> nat \<Rightarrow> loop_state \<Rightarrow> loop_exit \<times> nat \<times> loop_state" where
  "dispatch_loop w inp cfg loopCount st =
     (if loopCount < MAX_LOOPS then
        (if signal_aborted w loopCount then (AbortedAtTop, loopCount, st)
         else
           (case loop_body w inp cfg (loopCount + 1) st of
              Continue st' \<Rightarrow> dispatch_loop w inp cfg (loopCount + 1) st'
            | Return st' \<Rightarrow> (Finalized, loopCount + 1, st')
            | Throw e st' \<Rightarrow> (Caught e, loopCount + 1, st')))
      else (BoundReached, loopCount, st))"
  by pat_completeness auto
termination
  by (relation "measure (\<lambda>(w, inp, cfg, loopCount, st). MAX_LOOPS - loopCount)") auto

declare dispatch_loop.simps [simp del]

text \<open>
  The loop variables at the top of the loop once \<open>c\<close> iterations have ended with
  \<^verbatim>\<open>continue\<close>, starting from \<open>st0\<close>; \<open>None\<close> when the loop has been left before.
\<close>

fun state_at :: "world \<Rightarrow> AgentInput \<Rightarrow> settings \<Rightarrow> loop_state \<Rightarrow> nat \<Rightarrow> loop_state option" where
  "state_at w inp cfg st0 0 = Some st0"
| "state_at w inp cfg st0 (Suc c) =
     (case state_at w inp cfg st0 c of
        None \<Rightarrow> None
      | Some st \<Rightarrow>
          if c < MAX_LOOPS \<and> \<not> signal_aborted w c then
            (case loop_body w inp cfg (c + 1) st of
               Continue st' \<Rightarrow> Some st'
             | Return st' \<Rightarrow> None
             | Throw e st' \<Rightarrow> None)
          else None)"

fun step_state :: "step \<Rightarrow> loop_state" where
  "step_state (Continue st) = st"
| "step_state (Return st) = st"
| "step_state (Throw e st) = st"

section \<open>The agent\<close>

text \<open>Model and thinking budget chosen from the input, with the notice this may emit.\<close>

definition select_model :: "AgentInput \<Rightarrow> string \<times> nat \<times> event list" where
  "select_model inp =
     (let model0 = (case input_model inp of
                      None \<Rightarrow> DEFAULT_MODEL
                    | Some m \<Rightarrow> if m = [] \<or> trim m = [] then DEFAULT_MODEL else m);
          model1 = (if thinkingMode inp = Deep then
                      (if truthy (preferred_deep_model inp) then the (preferred_deep_model inp)
                       else ''gemini-3-pro-preview'')
                    else if thinkingMode inp = Think then DEFAULT_MODEL
                    else model0);
          thinking_budget = (if thinkingMode inp = Deep then 8192
                            else if thinkingMode inp = Think then 2048 else 0)
      in if 0 < thinking_budget \<and> \<not> str_includes model1 ''gemini-2.5''
            \<and> \<not> str_includes model1 ''gemini-3'' then
           (DEFAULT_MODEL, thinking_budget,
            emit inp ''\<newline>*(Switched to Gemini 2.5 Flash for Thinking mode compatibility)*\<newline>'')
         else (model1, thinking_budget, []))"

definition FALLBACK_NOTICE :: string where
  "FALLBACK_NOTICE = ''\<newline>*(OpenRouter key missing, falling back to Gemini...)*\<newline>''"

definition make_message :: "AgentInput \<Rightarrow> string \<Rightarrow> grounding list option \<Rightarrow> agent_message" where
  "make_message inp txt meta =
     \<lparr>project_id = project inp, chat_id = chat inp, sender = ''ai'', msg_text = txt,
      groundingMetadata = meta\<rparr>"

text \<open>The \<^verbatim>\<open>catch\<close> clause of the agent.\<close>

definition catch_handler :: "world \<Rightarrow> AgentInput \<Rightarrow> js_error \<Rightarrow> string \<Rightarrow> agent_message" where
  "catch_handler w inp error finalText =
     (if name error = ''AbortError'' then
        make_message inp (if finalText = [] then ''(Generation stopped by user)'' else finalText) None
      else
        (let errorMessage =
               (if truthy (message error) \<and> str_includes (the (message error)) ''OpenRouter''
                then the (message error) else getUserFriendlyError w error)
         in make_message inp (''An error occurred: '' @ errorMessage) None))"

definition render_result :: "nat \<times> WebSearchResult \<Rightarrow> string" where
  "render_result ip =
     (case ip of (i, p) \<Rightarrow>
        ''\<newline>--- RESULT '' @ show_nat (i + 1) @ '' ---\<newline>Title: '' @ title p
          @ ''\<newline>URL: '' @ url p @ ''\<newline>Content: ''
          @ (if truthy (content p) then the (content p)
             else if truthy (snippet p) then the (snippet p)
             else ''(No content available)'')
          @ ''\<newline>'')"

text \<open>
  The search made before the loop: the marker sent to the output, the source metadata
  and the context text.  A failure of the search or of the fetch leaves both empty.
\<close>

definition preflight_search ::
  "world \<Rightarrow> AgentInput \<Rightarrow> bool \<Rightarrow> event list \<times> grounding list \<times> string" where
  "preflight_search w inp supportsSearch =
     (if shouldUseExternalSearch w (prompt inp) supportsSearch False then
        (let marker = emit inp (''<SEARCH>'' @ prompt inp @ ''</SEARCH>'') in
         case runMcpWebSearch w (0, 0) (prompt inp) 15 of
           Inl err \<Rightarrow> (marker, [], [])
         | Inr searchResults \<Rightarrow>
             if searchResults \<noteq> [] then
               (case fetchContentsForResults w (0, 0) searchResults 15 of
                  Inl err \<Rightarrow> (marker, [], [])
                | Inr pages \<Rightarrow>
                    (marker, map (\<lambda>p. Web (url p) (title p)) pages,
                     ''\<newline>=== EXTERNAL WEB SEARCH RESULTS (JINA READER) ===\<newline>Query: ''
                       @ dq @ prompt inp @ dq @ ''\<newline>''
                       @ join ''\<newline>'' (map render_result (zip [0..<length pages] pages))
                       @ ''\<newline>=================================================\<newline>''))
             else (marker, [], []))
      else ([], [], []))"

text \<open>The loop variables as they are initialised before the \<^verbatim>\<open>while\<close> loop.\<close>

definition initial_state :: "AgentInput \<Rightarrow> RouterAction \<Rightarrow> grounding list \<Rightarrow> event list \<Rightarrow> loop_state" where
  "initial_state inp action externalMetadata evs =
     \<lparr>currentAction = action, currentPrompt = prompt inp,
      finalResponseText = [], fallbackSearchContext = [],
      metadataPayload = (if externalMetadata \<noteq> [] then Some externalMetadata else None),
      routing_parameters = None, events = evs\<rparr>"

text \<open>
  What the agent returns for each way of leaving the loop: the \<^verbatim>\<open>catch\<close> clause for an
  exception, the message with the accumulated text and the metadata otherwise.
\<close>

definition finish :: "world \<Rightarrow> AgentInput \<Rightarrow> loop_exit \<times> nat \<times> loop_state \<Rightarrow> outcome \<times> event list" where
  "finish w inp r =
     (case r of
        (Caught e, n, st) \<Rightarrow> (Returned (catch_handler w inp e (finalResponseText st)), events st)
      | (ended, n, st) \<Rightarrow>
          (Returned (make_message inp (finalResponseText st) (metadataPayload st)), events st))"

text \<open>
  The \<^verbatim>\<open>try\<close> block from the router call up to the loop, for the model and the settings
  decided before it; \<open>evs\<close> are the effects so far.  It gives the exception thrown by the
  router or by the memory store, with the effects up to it, or else the settings and the
  loop variables with which the loop starts.
\<close>

definition loop_start ::
  "world \<Rightarrow> AgentInput \<Rightarrow> string \<Rightarrow> bool \<Rightarrow> bool \<Rightarrow> nat \<Rightarrow> event list \<Rightarrow>
   (js_error \<times> event list) + (settings \<times> loop_state)" where
  "loop_start w inp model_used native supportsSearch thinking_budget evs =
     (case route w of
        Inl e \<Rightarrow> Inl (e, evs)
      | Inr action \<Rightarrow>
          (case preflight_search w inp supportsSearch of
             (search_evs, externalMetadata, context) \<Rightarrow>
               (case getContext w of
                  Some e \<Rightarrow> Inl (e, evs @ search_evs)
                | None \<Rightarrow>
                    Inr (\<lparr>effective_model = model_used, isNative = native,
                          modelSupportsSearch = supportsSearch, budget = thinking_budget,
                          externalSearchContext = context\<rparr>,
                         initial_state inp action externalMetadata (evs @ search_evs)))))"

text \<open>
  The rest of the \<^verbatim>\<open>try\<close> block with its \<^verbatim>\<open>catch\<close> clause: an exception before the loop
  goes to the \<^verbatim>\<open>catch\<close> clause with no text accumulated; otherwise the loop runs from
  its initial variables, with \<^verbatim>\<open>loopCount = 0\<close>.
\<close>

fun enter_loop ::
  "world \<Rightarrow> AgentInput \<Rightarrow> (js_error \<times> event list) + (settings \<times> loop_state) \<Rightarrow>
   outcome \<times> event list" where
  "enter_loop w inp (Inl (e, evs)) = (Returned (catch_handler w inp e []), evs)"
| "enter_loop w inp (Inr (cfg, st0)) = finish w inp (dispatch_loop w inp cfg 0 st0)"

text \<open>
  Everything in the \<^verbatim>\<open>try\<close> block from the router call on.
\<close>

definition agent_main ::
  "world \<Rightarrow> AgentInput \<Rightarrow> string \<Rightarrow> bool \<Rightarrow> bool \<Rightarrow> nat \<Rightarrow> event list \<Rightarrow> outcome \<times> event list" where
  "agent_main w inp model_used native supportsSearch thinking_budget evs =
     enter_loop w inp (loop_start w inp model_used native supportsSearch thinking_budget evs)"

text \<open>
  \<^verbatim>\<open>runAutonomousAgent\<close>: what the promise settles to, and the effects in order.  Instant
  mode hands the request to the free completion provider and turns any failure into one
  thrown error; otherwise the model is chosen, the credential of a non-native model is
  checked, and the rest runs inside the \<^verbatim>\<open>try\<close> block.
\<close>

definition runAutonomousAgent :: "world \<Rightarrow> AgentInput \<Rightarrow> outcome \<times> event list" where
  "runAutonomousAgent w inp =
     (if thinkingMode inp = Instant then
        (case generateFreeCompletion w of
           Inr txt \<Rightarrow> (Returned (make_message inp txt None), [])
         | Inl e \<Rightarrow> (Thrown (new_Error ''Instant mode service unavailable.''), []))
      else
        (case select_model inp of
           (model1, thinking_budget, evs0) \<Rightarrow>
             (let native = isGoogleModel model1;
                  supportsSearch = (native \<or> str_includes model1 ''perplexity'')
              in if \<not> native \<and> \<not> truthy (openrouter_api_key inp) then
                   agent_main w inp DEFAULT_MODEL native supportsSearch thinking_budget
                     (evs0 @ emit inp FALLBACK_NOTICE)
                 else agent_main w inp model1 native supportsSearch thinking_budget evs0)))"

section \<open>The tag precedence as a list of rules\<close>

text \<open>
  The specification words the handling of the generated text as seven rules tried in a
  fixed order, the first one that matches deciding the transition.  Each rule gives the
  loop variables after its transition when it matches.  The single-search rule is the
  specification's: exactly one \<^verbatim>\<open><SEARCH>\<close> tag, reached only when the multi-search rule
  before it has not taken the tag.
\<close>

datatype rule = MultiSearch | DeepTag | SingleSearch | ImageTag | ProjectTag | CanvasTag | StudyTag







text \<open>
  No transition applies to the generated text: the conditions of the multi-search block
  and of every \<^verbatim>\<open>if\<close> of the chain are false.
\<close>

definition no_transition ::
  "world \<Rightarrow> AgentInput \<Rightarrow> settings \<Rightarrow> nat \<Rightarrow> string \<Rightarrow> loop_state \<Rightarrow> bool" where
  "no_transition w inp cfg n gen st =
     (multi_search w inp cfg n (search_matches gen) st = None \<and> deepMatch gen = None \<and>
      \<not> (length (search_matches gen) = 1 \<and> fallbackSearchContext st = []) \<and>
      imageMatch gen = None \<and> projectMatch gen = None \<and> canvasMatch gen = None \<and>
      studyMatch gen = None)"

text \<open>The user texts of the requests made, in order.\<close>

fun request_texts :: "event list \<Rightarrow> string list" where
  "request_texts [] = []"
| "request_texts (Call r # es) = userText r # request_texts es"
| "request_texts (e # es) = request_texts es"

text \<open>Some control tag, opening and closing, is matched in the generated text.\<close>

definition control_tag_detected :: "string \<Rightarrow> bool" where
  "control_tag_detected gen =
     (search_matches gen \<noteq> [] \<or> deepMatch gen \<noteq> None \<or> imageMatch gen \<noteq> None \<or>
      projectMatch gen \<noteq> None \<or> canvasMatch gen \<noteq> None \<or> studyMatch gen \<noteq> None)"

section \<open>Concrete collaborators and inputs\<close>

definition abort_error :: js_error where
  "abort_error = \<lparr>name = ''AbortError'', status = None, message = Some ''The user aborted a request.''\<rparr>"

definition server_error :: js_error where
  "server_error = \<lparr>name = ''Error'', status = Some 500, message = Some ''Internal error''\<rparr>"

definition quota_error :: js_error where
  "quota_error = \<lparr>name = ''Error'', status = Some 429, message = Some ''Resource exhausted''\<rparr>"

definition example_input :: AgentInput where
  "example_input =
     \<lparr>prompt = ''hi'', input_model = Some ''gemini-2.5-flash'', thinkingMode = OtherMode,
      preferred_deep_model = None, openrouter_api_key = None, onStreamChunk = True,
      project = ''p1'', chat = ''c1''\<rparr>"

definition example_page :: "string \<Rightarrow> WebSearchResult" where
  "example_page q =
     \<lparr>url = ''https://example.org/'' @ q, title = q, snippet = None,
      content = Some (''about '' @ q)\<rparr>"

text \<open>
  A well-behaved environment: the router answers \<open>SIMPLE\<close>, the search heuristic accepts
  only queries that come from a tag, every search finds one page, the provider streams
  one chunk, and nobody cancels.
\<close>

definition example_world :: world where
  "example_world =
     \<lparr>route = Inr SIMPLE, getContext = None,
      shouldUseExternalSearch = (\<lambda>q supports fromTag. fromTag),
      runMcpWebSearch = (\<lambda>site q limit. Inr [example_page q]),
      fetchContentsForResults = (\<lambda>site results limit. Inr results),
      generateContentStream = (\<lambda>loopCount attempt params. Inr [Chunk False ''Hello'' None]),
      signal_aborted = (\<lambda>loopCount. False),
      generateFreeCompletion = Inr ''Hello'',
      getUserFriendlyError = (\<lambda>e. ''Something went wrong.'')\<rparr>"

text \<open>A model that answers every prompt with a \<^verbatim>\<open><DEEP>\<close> tag.\<close>

definition looping_world :: world where
  "looping_world =
     example_world\<lparr>generateContentStream :=
       (\<lambda>loopCount attempt params. Inr [Chunk False ''<DEEP>more</DEEP>'' None])\<rparr>"

text \<open>
  Cancellation: a stream that throws an \<^verbatim>\<open>AbortError\<close> before its first chunk, and a
  stream whose second chunk arrives when the abort signal is already set.
\<close>

definition aborting_world :: world where
  "aborting_world =
     example_world\<lparr>generateContentStream :=
       (\<lambda>loopCount attempt params. Inr [Fail abort_error])\<rparr>"

definition cancelled_world :: world where
  "cancelled_world =
     example_world\<lparr>generateContentStream :=
       (\<lambda>loopCount attempt params. Inr [Chunk False ''Hel'' None, Chunk True ''lo'' None])\<rparr>"

text \<open>
  Search services that fail: for the query \<^verbatim>\<open>a\<close> only, and for every query.  The model
  asks for two searches in its first turn and answers in its second.
\<close>

definition two_searches :: "nat \<Rightarrow> nat \<Rightarrow> request \<Rightarrow> js_error + chunk_item list" where
  "two_searches loopCount attempt params =
     (if loopCount = 1 then Inr [Chunk False ''<SEARCH> a </SEARCH><SEARCH>b</SEARCH>'' None]
      else Inr [Chunk False ''Done'' None])"


definition failing_search_world :: world where
  "failing_search_world =
     example_world\<lparr>generateContentStream := two_searches,
       fetchContentsForResults := (\<lambda>site results limit. Inl server_error)\<rparr>"

definition searching_world :: world where
  "searching_world = example_world\<lparr>generateContentStream := two_searches\<rparr>"

text \<open>A provider that answers every request with a server error.\<close>

definition broken_world :: world where
  "broken_world =
     example_world\<lparr>generateContentStream := (\<lambda>loopCount attempt params. Inl server_error)\<rparr>"

text \<open>A user without OpenRouter key who picks a model of another vendor, in think mode.\<close>

definition think_input :: AgentInput where
  "think_input = example_input\<lparr>input_model := Some ''openai/gpt-4o'', thinkingMode := Think\<rparr>"

definition other_vendor_input :: AgentInput where
  "other_vendor_input = example_input\<lparr>input_model := Some ''openai/gpt-4o''\<rparr>"

definition example_settings :: settings where
  "example_settings =
     \<lparr>effective_model = ''gemini-2.5-flash'', isNative = True, modelSupportsSearch = True,
      budget = 0, externalSearchContext = []\<rparr>"


text \<open>Two searches of which the first query is followed by two blanks inside its tag.\<close>

definition padded_search_world :: world where
  "padded_search_world =
     example_world\<lparr>generateContentStream :=
       (\<lambda>loopCount attempt params.
          if loopCount = 1 then Inr [Chunk False ''<SEARCH>a  </SEARCH><SEARCH>b</SEARCH>'' None]
          else Inr [Chunk False ''Done'' None])\<rparr>"

text \<open>Two searches asked for in the sixth turn only, after five \<^verbatim>\<open><DEEP>\<close> turns.\<close>

definition late_search_world :: world where
  "late_search_world =
     example_world\<lparr>generateContentStream :=
       (\<lambda>loopCount attempt params.
          if loopCount < 6 then Inr [Chunk False ''<DEEP>more</DEEP>'' None]
          else Inr [Chunk False ''<SEARCH>a</SEARCH><SEARCH>b</SEARCH>'' None])\<rparr>"

text \<open>The user cancels while the two searches of the first turn are running.\<close>

definition cancel_after_search_world :: world where
  "cancel_after_search_world = searching_world\<lparr>signal_aborted := (\<lambda>loopCount. loopCount = 1)\<rparr>"

text \<open>A stream that fails after its first chunk, and a signal that is set from the start.\<close>

definition partial_stream_world :: world where
  "partial_stream_world =
     example_world\<lparr>generateContentStream :=
       (\<lambda>loopCount attempt params. Inr [Chunk False ''Hel'' None, Fail server_error])\<rparr>"

definition pre_aborted_world :: world where
  "pre_aborted_world = example_world\<lparr>signal_aborted := (\<lambda>loopCount. True)\<rparr>"

text \<open>A router that classifies the message as a study request.\<close>

definition study_routed_world :: world where
  "study_routed_world = example_world\<lparr>route := Inr STUDY\<rparr>"

section \<open>Properties of the control tags and of the stream\<close>

lemma split_first_cut: "split_first pat t = Some (b, a) \<Longrightarrow> t = b @ pat @ a"
proof (induction t arbitrary: b)
  case Nil
  then show ?case by (simp split: if_splits)
next
  case (Cons c cs)
  show ?case
  proof (cases "prefix pat (c # cs)")
    case True
    with Cons.prems have "b = []" "a = drop (length pat) (c # cs)" by simp_all
    with True show ?thesis by (metis append_Nil prefixE append_eq_conv_conj)
  next
    case False
    with Cons.prems obtain b' where "split_first pat cs = Some (b', a)" "b = c # b'"
      by (auto split: prod.splits)
    with Cons.IH show ?thesis by simp
  qed
qed

lemma tag_match_cut:
  assumes "tag_match opening closing s = Some (inner, after)"
  shows "\<exists>before. s = before @ opening @ inner @ closing @ after"
proof -
  from assms obtain before rest where
    "split_first opening s = Some (before, rest)" "split_first closing rest = Some (inner, after)"
    by (auto simp: tag_match_def split: option.splits prod.splits)
  then show ?thesis
    using split_first_cut by fastforce
qed

lemma tag_match_closing: "tag_match opening closing s = Some x \<Longrightarrow> str_includes s closing"
proof -
  assume a: "tag_match opening closing s = Some x"
  obtain inner after where "x = (inner, after)" by (cases x)
  with a tag_match_cut obtain before where "s = (before @ opening @ inner) @ closing @ after"
    by fastforce
  then show ?thesis
    unfolding str_includes_def by (metis sublist_appendI)
qed

lemma match1_closing: "match1 opening closing s = Some x \<Longrightarrow> str_includes s closing"
  by (auto simp: match1_def dest: tag_match_closing)

lemma search_matches_closing: "search_matches s \<noteq> [] \<Longrightarrow> str_includes s ''</SEARCH>''"
  by (subst (asm) search_matches.simps) (auto split: option.splits dest: tag_match_closing)

lemma search_matches_opening:
  assumes "search_matches s \<noteq> []"
  shows "CHR ''<'' \<in> set s"
proof -
  from assms obtain inner after where "tag_match ''<SEARCH>'' ''</SEARCH>'' s = Some (inner, after)"
    by (subst (asm) search_matches.simps) (auto split: option.splits)
  from tag_match_cut[OF this] show ?thesis by auto
qed

lemma no_closing_tag_no_match:
  assumes "\<not> closing_tag_seen gen"
  shows "search_matches gen = []" "deepMatch gen = None" "imageMatch gen = None"
    "projectMatch gen = None" "canvasMatch gen = None" "studyMatch gen = None"
proof -
  show "search_matches gen = []"
    using assms search_matches_closing by (auto simp: closing_tag_seen_def)
  show "deepMatch gen = None"
    using assms match1_closing[of "''<DEEP>''" "''</DEEP>''" gen]
    by (cases "deepMatch gen") (auto simp: closing_tag_seen_def deepMatch_def)
  show "imageMatch gen = None"
    using assms match1_closing[of "''<IMAGE>''" "''</IMAGE>''" gen]
    by (cases "imageMatch gen") (auto simp: closing_tag_seen_def imageMatch_def)
  show "projectMatch gen = None"
    using assms match1_closing[of "''<PROJECT>''" "''</PROJECT>''" gen]
    by (cases "projectMatch gen") (auto simp: closing_tag_seen_def projectMatch_def)
  show "studyMatch gen = None"
    using assms match1_closing[of "''<STUDY>''" "''</STUDY>''" gen]
    by (cases "studyMatch gen") (auto simp: closing_tag_seen_def studyMatch_def)
  have "match1 ''<CANVAS_TRIGGER>'' ''</CANVAS_TRIGGER>'' gen = None"
    using assms match1_closing[of "''<CANVAS_TRIGGER>''" "''</CANVAS_TRIGGER>''" gen]
    by (cases "match1 ''<CANVAS_TRIGGER>'' ''</CANVAS_TRIGGER>'' gen") (auto simp: closing_tag_seen_def)
  moreover have "match1 ''<CANVAS_TRIGGER>'' ''</CANVASTRIGGER>'' gen = None"
    using assms match1_closing[of "''<CANVAS_TRIGGER>''" "''</CANVASTRIGGER>''" gen]
    by (cases "match1 ''<CANVAS_TRIGGER>'' ''</CANVASTRIGGER>'' gen") (auto simp: closing_tag_seen_def)
  moreover have "match1 ''<CANVAS>'' ''</CANVAS>'' gen = None"
    using assms match1_closing[of "''<CANVAS>''" "''</CANVAS>''" gen]
    by (cases "match1 ''<CANVAS>'' ''</CANVAS>'' gen") (auto simp: closing_tag_seen_def)
  ultimately show "canvasMatch gen = None"
    by (simp add: canvasMatch_def)
qed

lemma closing_tag_seen_Nil: "\<not> closing_tag_seen []"
  by (simp add: closing_tag_seen_def str_includes_def)

lemma trim_not_blank: "c \<in> set s \<Longrightarrow> \<not> is_ws c \<Longrightarrow> trim s \<noteq> []"
proof -
  assume c: "c \<in> set s" "\<not> is_ws c"
  then have "dropWhile is_ws s \<noteq> []" by auto
  moreover have "c \<in> set (dropWhile is_ws s)"
    using c by (induction s) auto
  then have "c \<in> set (rev (dropWhile is_ws s))" by simp
  then have "dropWhile is_ws (rev (dropWhile is_ws s)) \<noteq> []"
    using c(2) by auto
  then show ?thesis by (simp add: trim_def)
qed

lemma consume_text:
  "consume inp native items gen st = (ended, gen', st') \<Longrightarrow>
   \<exists>t. gen' = gen @ t \<and> finalResponseText st' = finalResponseText st @ t"
proof (induction inp native items gen st rule: consume.induct)
  case (3 inp native aborted tx groundingChunks rest generatedThisLoop st)
  show ?case
  proof (cases "aborted \<or> tx = []")
    case True
    with 3 show ?thesis by (auto split: if_splits)
  next
    case False
    let ?st = "st\<lparr>finalResponseText := finalResponseText st @ tx,
                      events := events st @ emit inp tx,
                      metadataPayload :=
                        (if native then
                           (case groundingChunks of
                              None \<Rightarrow> metadataPayload st
                            | Some cs \<Rightarrow> push_grounding (metadataPayload st) cs)
                         else metadataPayload st)\<rparr>"
    show ?thesis
    proof (cases "closing_tag_seen (generatedThisLoop @ tx)")
      case True
      with False "3.prems" show ?thesis by (auto simp: Let_def)
    next
      case seen: False
      with False "3.prems" have "consume inp native rest (generatedThisLoop @ tx) ?st = (ended, gen', st')"
        by (simp add: Let_def)
      from "3.IH"(1)[OF _ _ refl refl seen this] False
      show ?thesis by auto
    qed
  qed
qed auto

lemma consume_keeps:
  "consume inp native items gen st = (ended, gen', st') \<Longrightarrow>
   currentAction st' = currentAction st \<and> currentPrompt st' = currentPrompt st \<and>
   fallbackSearchContext st' = fallbackSearchContext st \<and>
   routing_parameters st' = routing_parameters st"
proof (induction inp native items gen st rule: consume.induct)
  case (3 inp native aborted tx groundingChunks rest generatedThisLoop st)
  show ?case
  proof (cases "aborted \<or> tx = []")
    case True
    with 3 show ?thesis by (auto split: if_splits)
  next
    case False
    let ?st = "st\<lparr>finalResponseText := finalResponseText st @ tx,
                      events := events st @ emit inp tx,
                      metadataPayload :=
                        (if native then
                           (case groundingChunks of
                              None \<Rightarrow> metadataPayload st
                            | Some cs \<Rightarrow> push_grounding (metadataPayload st) cs)
                         else metadataPayload st)\<rparr>"
    show ?thesis
    proof (cases "closing_tag_seen (generatedThisLoop @ tx)")
      case True
      with False "3.prems" show ?thesis by (auto simp: Let_def)
    next
      case seen: False
      with False "3.prems" have "consume inp native rest (generatedThisLoop @ tx) ?st = (ended, gen', st')"
        by (simp add: Let_def)
      from "3.IH"(1)[OF _ _ refl refl seen this] False
      show ?thesis by auto
    qed
  qed
qed auto

lemma consume_no_closing_tag:
  "consume inp native items gen st = (ended, gen', st') \<Longrightarrow> \<not> closing_tag_seen gen \<Longrightarrow>
   ended \<noteq> TagSeen \<Longrightarrow> \<not> closing_tag_seen gen'"
proof (induction inp native items gen st rule: consume.induct)
  case (3 inp native aborted tx groundingChunks rest generatedThisLoop st)
  show ?case
  proof (cases "aborted \<or> tx = []")
    case True
    with 3 show ?thesis by (auto split: if_splits)
  next
    case False
    let ?st = "st\<lparr>finalResponseText := finalResponseText st @ tx,
                      events := events st @ emit inp tx,
                      metadataPayload :=
                        (if native then
                           (case groundingChunks of
                              None \<Rightarrow> metadataPayload st
                            | Some cs \<Rightarrow> push_grounding (metadataPayload st) cs)
                         else metadataPayload st)\<rparr>"
    show ?thesis
    proof (cases "closing_tag_seen (generatedThisLoop @ tx)")
      case True
      with False "3.prems" show ?thesis by (auto simp: Let_def)
    next
      case seen: False
      with False "3.prems" have "consume inp native rest (generatedThisLoop @ tx) ?st = (ended, gen', st')"
        by (simp add: Let_def)
      from "3.IH"(1)[OF _ _ refl refl seen this seen "3.prems"(3)] False
      show ?thesis by auto
    qed
  qed
qed auto

section \<open>Invariants of the dispatch loop\<close>

lemma stream_phase_keeps:
  assumes "stream_phase w inp cfg n st = (ended, gen, st2)"
  shows "finalResponseText st2 = finalResponseText st @ gen"
    and "fallbackSearchContext st2 = fallbackSearchContext st"
    and "currentAction st2 = currentAction st"
    and "currentPrompt st2 = currentPrompt st"
    and "ended \<noteq> TagSeen \<Longrightarrow> \<not> closing_tag_seen gen"
proof -
  let ?attempt = "generateContentStreamWithRetry (generateContentStream w n)
       \<lparr>model = effective_model cfg, userText = currentPrompt st,
        external_web_search = externalSearchContext cfg, thinkingBudget = budget cfg\<rparr> 3
       (Some (\<lambda>msg. if onStreamChunk inp then [msg] else []))"
  let ?st1 = "st\<lparr>events := events st @ snd ?attempt\<rparr>"
  have all: "finalResponseText st2 = finalResponseText st @ gen \<and>
    fallbackSearchContext st2 = fallbackSearchContext st \<and>
    currentAction st2 = currentAction st \<and> currentPrompt st2 = currentPrompt st \<and>
    (ended \<noteq> TagSeen \<longrightarrow> \<not> closing_tag_seen gen)"
  proof (cases "fst ?attempt")
    case (Generator g)
    with assms have c: "consume inp (isNative cfg) g [] ?st1 = (ended, gen, st2)"
      by (simp add: stream_phase_def Let_def)
    from consume_text[OF c] consume_keeps[OF c] consume_no_closing_tag[OF c closing_tag_seen_Nil]
    show ?thesis by auto
  next
    case (Rethrow e)
    with assms show ?thesis
      by (auto simp: stream_phase_def Let_def closing_tag_seen_Nil)
  next
    case MaxRetriesExceeded
    with assms show ?thesis
      by (auto simp: stream_phase_def Let_def closing_tag_seen_Nil)
  qed
  from all show "finalResponseText st2 = finalResponseText st @ gen" by simp
  from all show "fallbackSearchContext st2 = fallbackSearchContext st" by simp
  from all show "currentAction st2 = currentAction st" by simp
  from all show "currentPrompt st2 = currentPrompt st" by simp
  from all show "ended \<noteq> TagSeen \<Longrightarrow> \<not> closing_tag_seen gen" by simp
qed

lemma tag_transitions_no_tag:
  assumes "\<not> control_tag_detected gen"
  shows "tag_transitions inp gen (search_matches gen) st = Return (finalize inp st)"
  using assms by (simp add: control_tag_detected_def tag_transitions_def)

lemma multi_search_Nil: "multi_search w inp cfg n [] st = None"
  by (simp add: multi_search_def)

lemma post_stream_no_tag:
  assumes "\<not> control_tag_detected gen"
  shows "post_stream w inp cfg n gen st = Return (finalize inp st)"
proof -
  from assms have "search_matches gen = []" by (simp add: control_tag_detected_def)
  then show ?thesis
    using tag_transitions_no_tag[OF assms, of inp st]
    by (simp add: post_stream_def multi_search_Nil)
qed

lemma no_closing_tag_not_detected: "\<not> closing_tag_seen gen \<Longrightarrow> \<not> control_tag_detected gen"
  using no_closing_tag_no_match[of gen] by (simp add: control_tag_detected_def)

lemma multi_search_Some:
  assumes "multi_search w inp cfg n ms st = Some st'"
  shows "ms \<noteq> []" and "finalResponseText st' = finalResponseText st"
    and "currentAction st' = SIMPLE"
  using assms by (auto simp: multi_search_def Let_def split: if_splits)

lemma tag_transitions_Continue:
  assumes "tag_transitions inp gen (search_matches gen) st = Continue st'"
  shows "control_tag_detected gen \<and> finalResponseText st' = finalResponseText st \<and>
         fallbackSearchContext st' = fallbackSearchContext st"
proof (cases "control_tag_detected gen")
  case False
  with assms tag_transitions_no_tag[of gen inp st] show ?thesis by simp
next
  case True
  with assms show ?thesis
    by (auto simp: tag_transitions_def split: option.splits if_splits)
qed

lemma tag_transitions_Return:
  assumes "tag_transitions inp gen ms st = Return st'"
  shows "st' = finalize inp st"
  using assms by (auto simp: tag_transitions_def split: option.splits if_splits)

lemma tag_transitions_not_Throw: "tag_transitions inp gen ms st \<noteq> Throw e st'"
  by (auto simp: tag_transitions_def split: option.splits if_splits)

lemma post_stream_Continue:
  assumes "post_stream w inp cfg n gen st = Continue st'"
  shows "control_tag_detected gen" and "finalResponseText st' = finalResponseText st"
    and "fallbackSearchContext st' = fallbackSearchContext st \<or> search_matches gen \<noteq> []"
proof -
  have "control_tag_detected gen \<and> finalResponseText st' = finalResponseText st \<and>
    (fallbackSearchContext st' = fallbackSearchContext st \<or> search_matches gen \<noteq> [])"
  proof (cases "multi_search w inp cfg n (search_matches gen) st")
    case None
    with assms have "tag_transitions inp gen (search_matches gen) st = Continue st'"
      by (simp add: post_stream_def)
    from tag_transitions_Continue[OF this] show ?thesis by simp
  next
    case (Some s)
    with assms have "s = st'" by (simp add: post_stream_def)
    with Some multi_search_Some[of w inp cfg n "search_matches gen" st st'] show ?thesis
      by (simp add: control_tag_detected_def)
  qed
  then show "control_tag_detected gen" and "finalResponseText st' = finalResponseText st"
    and "fallbackSearchContext st' = fallbackSearchContext st \<or> search_matches gen \<noteq> []"
    by simp_all
qed

lemma post_stream_Return:
  assumes "post_stream w inp cfg n gen st = Return st'"
  shows "st' = finalize inp st"
  using assms tag_transitions_Return
  by (auto simp: post_stream_def Let_def split: option.splits)

lemma post_stream_not_Throw: "post_stream w inp cfg n gen st \<noteq> Throw e st'"
  using tag_transitions_not_Throw
  by (auto simp: post_stream_def Let_def split: option.splits)

lemma not_ws_lt: "\<not> is_ws CHR ''<''"
  by (simp add: is_ws_def)

lemma finalize_text:
  assumes "fallbackSearchContext st \<noteq> [] \<longrightarrow> (\<exists>c. c \<in> set (finalResponseText st) \<and> \<not> is_ws c)"
  shows "finalize inp st = st"
  using assms trim_not_blank by (auto simp: finalize_def)

lemma loop_body_cases:
  obtains (threw) e gen st2 where "stream_phase w inp cfg n st = (Threw e, gen, st2)"
      "loop_body w inp cfg n st = Throw e st2"
  | (streamed) ended gen st2 where "stream_phase w inp cfg n st = (ended, gen, st2)"
      "\<forall>e. ended \<noteq> Threw e" "loop_body w inp cfg n st = post_stream w inp cfg n gen st2"
proof -
  obtain ended gen st2 where s: "stream_phase w inp cfg n st = (ended, gen, st2)"
    by (cases "stream_phase w inp cfg n st") auto
  show thesis
  proof (cases ended)
    case (Threw e)
    with s show ?thesis by (intro threw[of e gen st2]) (simp_all add: loop_body_def)
  qed (use s in \<open>intro streamed[of ended gen st2]; simp add: loop_body_def\<close>)+
qed

lemma loop_body_Continue_inv:
  assumes inv: "fallbackSearchContext st \<noteq> [] \<longrightarrow> (\<exists>c. c \<in> set (finalResponseText st) \<and> \<not> is_ws c)"
    and step: "loop_body w inp cfg n st = Continue st'"
  shows "fallbackSearchContext st' \<noteq> [] \<longrightarrow> (\<exists>c. c \<in> set (finalResponseText st') \<and> \<not> is_ws c)"
proof (cases rule: loop_body_cases[of w inp cfg n st])
  case (threw e gen st2)
  with step show ?thesis by simp
next
  case (streamed ended gen st2)
  with step have p: "post_stream w inp cfg n gen st2 = Continue st'" by simp
  note k = stream_phase_keeps[OF streamed(1)]
  from post_stream_Continue[OF p] have f: "finalResponseText st' = finalResponseText st @ gen"
    and d: "fallbackSearchContext st' = fallbackSearchContext st \<or> search_matches gen \<noteq> []"
    using k by simp_all
  from d show ?thesis
  proof
    assume "fallbackSearchContext st' = fallbackSearchContext st"
    with inv f show ?thesis by auto
  next
    assume "search_matches gen \<noteq> []"
    from search_matches_opening[OF this] f not_ws_lt show ?thesis by auto
  qed
qed

lemma state_at_inv:
  assumes "finalResponseText st0 = []" "fallbackSearchContext st0 = []"
    and "state_at w inp cfg st0 c = Some st"
  shows "fallbackSearchContext st \<noteq> [] \<longrightarrow> (\<exists>c. c \<in> set (finalResponseText st) \<and> \<not> is_ws c)"
  using assms(3)
proof (induction c arbitrary: st)
  case 0
  with assms(1,2) show ?case by simp
next
  case (Suc c)
  then obtain s where s: "state_at w inp cfg st0 c = Some s"
    and b: "loop_body w inp cfg (c + 1) s = Continue st"
    by (auto split: option.splits if_splits step.splits)
  from loop_body_Continue_inv[OF Suc.IH[OF s] b] show ?case .
qed

lemma dispatch_loop_state_at:
  "state_at w inp cfg st0 c = Some st \<Longrightarrow>
   dispatch_loop w inp cfg 0 st0 = dispatch_loop w inp cfg c st"
proof (induction c arbitrary: st)
  case 0
  then show ?case by simp
next
  case (Suc c)
  then obtain s where s: "state_at w inp cfg st0 c = Some s"
    and c: "c < MAX_LOOPS" "\<not> signal_aborted w c"
    and b: "loop_body w inp cfg (c + 1) s = Continue st"
    by (auto split: option.splits if_splits step.splits)
  have "dispatch_loop w inp cfg c s = dispatch_loop w inp cfg (Suc c) st"
    using c b by (subst dispatch_loop.simps) simp
  with Suc.IH[OF s] show ?case by simp
qed

lemma dispatch_loop_count:
  "c \<le> MAX_LOOPS \<Longrightarrow> fst (snd (dispatch_loop w inp cfg c st)) \<le> MAX_LOOPS"
proof (induction w inp cfg c st rule: dispatch_loop.induct)
  case (1 w inp cfg loopCount st)
  show ?case
  proof (cases "loopCount < MAX_LOOPS \<and> \<not> signal_aborted w loopCount")
    case False
    with "1.prems" show ?thesis by (subst dispatch_loop.simps) auto
  next
    case True
    show ?thesis
    proof (cases "loop_body w inp cfg (loopCount + 1) st")
      case (Continue st')
      with True "1.IH"[OF _ _ Continue] show ?thesis
        by (subst dispatch_loop.simps) simp
    next
      case (Return st')
      with True show ?thesis by (subst dispatch_loop.simps) simp
    next
      case (Throw e st')
      with True show ?thesis by (subst dispatch_loop.simps) simp
    qed
  qed
qed

lemma finish_returns: "\<exists>m. fst (finish w inp r) = Returned m"
proof -
  obtain ex n st where r: "r = (ex, n, st)" by (cases r) auto
  show ?thesis by (cases ex) (simp_all add: r finish_def)
qed

lemma agent_main_returns: "\<exists>m. fst (agent_main w inp mo na su tb evs) = Returned m"
proof (cases "loop_start w inp mo na su tb evs")
  case (Inl p)
  then show ?thesis by (cases p) (simp add: agent_main_def)
next
  case (Inr p)
  then show ?thesis using finish_returns by (cases p) (simp add: agent_main_def)
qed

section \<open>Properties of the streaming request wrapper\<close>

lemma retry_loop_settles:
  "a \<le> k \<Longrightarrow> int k \<le> retries \<Longrightarrow> (\<forall>j. a \<le> j \<and> j < k \<longrightarrow> quota_failure (ai j p)) \<Longrightarrow>
   (int k < retries \<longrightarrow> \<not> quota_failure (ai k p)) \<Longrightarrow>
   retry_loop ai p retries onRetry a =
     (settled (ai k p), concat (map (retry_events onRetry p) [a..<k]) @ [Call p])"
proof (induction "k - a" arbitrary: a)
  case 0
  then have "a = k" by simp
  with "0.prems" show ?case
    by (subst retry_loop.simps) (auto simp: quota_failure_def split: sum.splits)
next
  case (Suc d)
  then have lt: "a < k" by simp
  with Suc.prems obtain e where e: "ai a p = Inl e" "isQuotaError e"
    by (fastforce simp: quota_failure_def split: sum.splits)
  have rec: "retry_loop ai p retries onRetry (a + 1) =
     (settled (ai k p), concat (map (retry_events onRetry p) [a + 1..<k]) @ [Call p])"
    using Suc.hyps(1)[of "a + 1"] Suc.hyps(2) Suc.prems lt by simp
  have upt: "[a..<k] = a # [a + 1..<k]"
    using lt by (simp add: upt_conv_Cons)
  show ?case
    using e lt Suc.prems(2) rec
    by (subst retry_loop.simps) (simp add: upt retry_events_def)
qed

lemma retry_loop_exists:
  "int a \<le> retries \<Longrightarrow>
   \<exists>k. a \<le> k \<and> int k \<le> retries \<and> (\<forall>j. a \<le> j \<and> j < k \<longrightarrow> quota_failure (ai j p)) \<and>
       (int k < retries \<longrightarrow> \<not> quota_failure (ai k p))"
proof (induction "nat retries - a" arbitrary: a)
  case 0
  then have "int a = retries" by simp
  then show ?case by (intro exI[of _ a]) auto
next
  case (Suc d)
  show ?case
  proof (cases "quota_failure (ai a p)")
    case False
    with Suc.prems show ?thesis by (intro exI[of _ a]) auto
  next
    case True
    from Suc.hyps(2) have "int (a + 1) \<le> retries" "d = nat retries - (a + 1)" by linarith+
    from Suc.hyps(1)[OF this(2) this(1)] obtain k where k: "a + 1 \<le> k" "int k \<le> retries"
      "\<forall>j. a + 1 \<le> j \<and> j < k \<longrightarrow> quota_failure (ai j p)"
      "int k < retries \<longrightarrow> \<not> quota_failure (ai k p)" by blast
    have "\<forall>j. a \<le> j \<and> j < k \<longrightarrow> quota_failure (ai j p)"
    proof (intro allI impI)
      fix j assume "a \<le> j \<and> j < k"
      then show "quota_failure (ai j p)" using k(3) True by (cases "j = a") auto
    qed
    with k show ?thesis by (intro exI[of _ k]) auto
  qed
qed

lemma sleeps_append: "sleeps (xs @ ys) = sleeps xs @ sleeps ys"
  by (induction xs rule: sleeps.induct) auto

lemma sleeps_map_Emit: "sleeps (map Emit xs) = []"
  by (induction xs) auto

lemma sleeps_retry_events: "sleeps (retry_events onRetry p a) = [retry_delay a]"
  by (simp add: retry_events_def on_retry_def sleeps_append sleeps_map_Emit split: option.splits)

lemma sleeps_retries: "sleeps (concat (map (retry_events onRetry p) as)) = map retry_delay as"
  by (induction as) (auto simp: sleeps_append sleeps_retry_events)

lemma calls_retry_events: "filter is_Call (retry_events onRetry p a) = [Call p]"
  by (simp add: retry_events_def on_retry_def filter_map comp_def split: option.splits)

lemma calls_retries:
  "filter is_Call (concat (map (retry_events onRetry p) as)) = replicate (length as) (Call p)"
  by (induction as) (auto simp: calls_retry_events)

lemma retry_delay_mono: "a < b \<Longrightarrow> retry_delay a < retry_delay b"
  by (simp add: retry_delay_def)

lemma sorted_delays: "sorted_wrt (<) (map retry_delay [a..<k])"
  by (simp add: sorted_wrt_map sorted_wrt_iff_nth_less retry_delay_mono)

text \<open>
  Claim C4.  With the three retries the agent asks for, the wrapper makes the attempts
  \<open>0, \<dots>, k\<close> where \<open>k\<close> is the first attempt that is not a rate-limit failure, or 3
  when the first three all are.  Each rate-limit failure before the last attempt is
  followed by the retry notice handed to the callback and a wait of
  \<open>2 ^ attempt * 2000 + 1000\<close> milliseconds, then by the next attempt; the outcome of
  attempt \<open>k\<close> is the outcome of the wrapper, so that a failure that is not a rate limit is
  rethrown at once.  There are at most four provider calls, and the waits grow strictly.
\<close>

theorem generateContentStreamWithRetry_backoff:
  "(\<forall>k\<le>3. (\<forall>j<k. quota_failure (ai j (with_model params))) \<and>
            (k < 3 \<longrightarrow> \<not> quota_failure (ai k (with_model params))) \<longrightarrow>
      generateContentStreamWithRetry ai params 3 onRetry =
        (settled (ai k (with_model params)),
         concat (map (retry_events onRetry (with_model params)) [0..<k]) @ [Call (with_model params)])) \<and>
   length (filter is_Call (snd (generateContentStreamWithRetry ai params 3 onRetry))) \<le> 4 \<and>
   sorted_wrt (<) (sleeps (snd (generateContentStreamWithRetry ai params 3 onRetry))) \<and>
   (\<forall>attempt. retry_events onRetry (with_model params) attempt =
        [Call (with_model params)] @ on_retry onRetry (retry_notice (retry_delay attempt))
          @ [Sleep (2 ^ attempt * 2000 + 1000)]) \<and>
   (\<forall>attempt. retry_delay attempt < retry_delay (attempt + 1))"
proof (intro conjI allI impI)
  fix k :: nat
  assume "k \<le> 3"
    and "(\<forall>j<k. quota_failure (ai j (with_model params))) \<and>
         (k < 3 \<longrightarrow> \<not> quota_failure (ai k (with_model params)))"
  then show "generateContentStreamWithRetry ai params 3 onRetry =
        (settled (ai k (with_model params)),
         concat (map (retry_events onRetry (with_model params)) [0..<k]) @ [Call (with_model params)])"
    unfolding generateContentStreamWithRetry_def
    by (intro retry_loop_settles) auto
next
  obtain k where k: "int k \<le> 3" "\<forall>j. 0 \<le> j \<and> j < k \<longrightarrow> quota_failure (ai j (with_model params))"
      "int k < 3 \<longrightarrow> \<not> quota_failure (ai k (with_model params))"
    using retry_loop_exists[of 0 3 ai "with_model params"] by auto
  then have eq: "generateContentStreamWithRetry ai params 3 onRetry =
        (settled (ai k (with_model params)),
         concat (map (retry_events onRetry (with_model params)) [0..<k]) @ [Call (with_model params)])"
    unfolding generateContentStreamWithRetry_def
    by (intro retry_loop_settles) auto
  show "length (filter is_Call (snd (generateContentStreamWithRetry ai params 3 onRetry))) \<le> 4"
    using k(1) by (simp add: eq calls_retries)
  show "sorted_wrt (<) (sleeps (snd (generateContentStreamWithRetry ai params 3 onRetry)))"
    by (simp add: eq sleeps_append sleeps_retries sorted_delays del: upt_0)
next
  fix attempt
  show "retry_events onRetry (with_model params) attempt =
        [Call (with_model params)] @ on_retry onRetry (retry_notice (retry_delay attempt))
          @ [Sleep (2 ^ attempt * 2000 + 1000)]"
    by (simp add: retry_events_def retry_delay_def)
next
  fix attempt
  show "retry_delay attempt < retry_delay (attempt + 1)"
    by (simp add: retry_delay_def)
qed

theorem generateContentStreamWithRetry_backoff_witness:
  "(1::nat) \<le> 3 \<and> quota_failure (Inl quota_error :: js_error + string) \<and>
   \<not> quota_failure (Inr ''ok'' :: js_error + string) \<and>
   generateContentStreamWithRetry (\<lambda>attempt p. if attempt = 0 then Inl quota_error else Inr ''ok'')
       \<lparr>model = ''gemini-2.5-flash'', userText = ''hi'', external_web_search = [], thinkingBudget = 0\<rparr>
       3 (Some (\<lambda>msg. [msg])) =
     (Generator ''ok'',
      [Call \<lparr>model = ''gemini-2.5-flash'', userText = ''hi'', external_web_search = [], thinkingBudget = 0\<rparr>,
       Emit ''(Rate limit hit. Retrying in 3s...)'', Sleep 3000,
       Call \<lparr>model = ''gemini-2.5-flash'', userText = ''hi'', external_web_search = [], thinkingBudget = 0\<rparr>])"
proof -
  let ?ai = "\<lambda>(attempt::nat) (p::request). if attempt = 0 then Inl quota_error else (Inr ''ok'' :: js_error + string)"
  let ?p = "\<lparr>model = ''gemini-2.5-flash'', userText = ''hi'', external_web_search = [], thinkingBudget = 0\<rparr>"
  have q: "quota_failure (Inl quota_error :: js_error + string)"
    by (simp add: quota_failure_def isQuotaError_def quota_error_def)
  have nq: "\<not> quota_failure (Inr ''ok'' :: js_error + string)"
    by (simp add: quota_failure_def)
  have m: "with_model ?p = ?p"
    by (simp add: with_model_def)
  from generateContentStreamWithRetry_backoff[of ?ai ?p "Some (\<lambda>msg. [msg])"]
  have "\<forall>k\<le>3. (\<forall>j<k. quota_failure (?ai j (with_model ?p))) \<and>
            (k < 3 \<longrightarrow> \<not> quota_failure (?ai k (with_model ?p))) \<longrightarrow>
      generateContentStreamWithRetry ?ai ?p 3 (Some (\<lambda>msg. [msg])) =
        (settled (?ai k (with_model ?p)),
         concat (map (retry_events (Some (\<lambda>msg. [msg])) (with_model ?p)) [0..<k]) @ [Call (with_model ?p)])"
    by blast
  from this[rule_format, of 1]
  have "generateContentStreamWithRetry ?ai ?p 3 (Some (\<lambda>msg. [msg])) =
        (settled (?ai 1 (with_model ?p)),
         concat (map (retry_events (Some (\<lambda>msg. [msg])) (with_model ?p)) [0..<1]) @ [Call (with_model ?p)])"
    using q nq by simp
  then show ?thesis
    using q nq
    by (simp add: m retry_events_def on_retry_def retry_notice_def retry_delay_def show_nat.simps)
qed

text \<open>
  Claim C10.  For a retry count that is not negative (the agent passes 3, which is also
  the default), the wrapper never reaches the statement after its loop: it ends with the
  outcome of one of its attempts.  When every attempt \<open>0, \<dots>, retries\<close> fails with a
  rate-limit error, the error rethrown is the provider's error of the last attempt.
\<close>

theorem max_retries_unreachable:
  assumes "0 \<le> retries"
  shows "fst (generateContentStreamWithRetry ai params retries onRetry) \<noteq> MaxRetriesExceeded \<and>
         ((\<forall>j. int j \<le> retries \<longrightarrow> quota_failure (ai j (with_model params))) \<longrightarrow>
            (\<exists>e. ai (nat retries) (with_model params) = Inl e \<and> isQuotaError e \<and>
                 fst (generateContentStreamWithRetry ai params retries onRetry) = Rethrow e))"
proof (intro conjI impI)
  obtain k where k: "int k \<le> retries" "\<forall>j. 0 \<le> j \<and> j < k \<longrightarrow> quota_failure (ai j (with_model params))"
      "int k < retries \<longrightarrow> \<not> quota_failure (ai k (with_model params))"
    using retry_loop_exists[of 0 retries ai "with_model params"] assms by auto
  then have "fst (generateContentStreamWithRetry ai params retries onRetry) = settled (ai k (with_model params))"
    unfolding generateContentStreamWithRetry_def
    by (subst retry_loop_settles[where k = k]) auto
  then show "fst (generateContentStreamWithRetry ai params retries onRetry) \<noteq> MaxRetriesExceeded"
    by (cases "ai k (with_model params)") auto
next
  assume all: "\<forall>j. int j \<le> retries \<longrightarrow> quota_failure (ai j (with_model params))"
  with assms have "quota_failure (ai (nat retries) (with_model params))" by simp
  then obtain e where e: "ai (nat retries) (with_model params) = Inl e" "isQuotaError e"
    by (auto simp: quota_failure_def split: sum.splits)
  have "fst (generateContentStreamWithRetry ai params retries onRetry) = settled (ai (nat retries) (with_model params))"
    unfolding generateContentStreamWithRetry_def
    using assms all by (subst retry_loop_settles[where k = "nat retries"]) auto
  with e show "\<exists>e. ai (nat retries) (with_model params) = Inl e \<and> isQuotaError e \<and>
                 fst (generateContentStreamWithRetry ai params retries onRetry) = Rethrow e"
    by simp
qed

theorem max_retries_unreachable_witness:
  "(0::int) \<le> 3 \<and> quota_failure (Inl quota_error :: js_error + string) \<and>
   fst (generateContentStreamWithRetry (\<lambda>attempt p. Inl quota_error :: js_error + string)
          \<lparr>model = ''gemini-2.5-flash'', userText = ''hi'', external_web_search = [], thinkingBudget = 0\<rparr>
          3 None) = Rethrow quota_error \<and>
   fst (generateContentStreamWithRetry (\<lambda>attempt p. Inl quota_error :: js_error + string)
          \<lparr>model = ''gemini-2.5-flash'', userText = ''hi'', external_web_search = [], thinkingBudget = 0\<rparr>
          3 None) \<noteq> MaxRetriesExceeded"
proof -
  have q: "quota_failure (Inl quota_error :: js_error + string)"
    by (simp add: quota_failure_def isQuotaError_def quota_error_def)
  have z: "(0::int) \<le> 3" by simp
  show ?thesis
    using max_retries_unreachable[OF z, of "\<lambda>attempt p. Inl quota_error :: js_error + string"
        "\<lparr>model = ''gemini-2.5-flash'', userText = ''hi'', external_web_search = [], thinkingBudget = 0\<rparr>" None] q
    by simp
qed

section \<open>Properties of the dispatch loop\<close>

text \<open>
  Claim C1.  Whatever the environment does and whatever the streams contain, the
  dispatch loop begins at most 6 iterations: the final value of \<^verbatim>\<open>loopCount\<close>, which is
  incremented once at the start of each iteration, is at most 6.  Outside instant mode
  the agent always returns a message.
\<close>

theorem dispatch_loop_bounded:
  "fst (snd (dispatch_loop w inp cfg 0 st)) \<le> 6 \<and>
   (thinkingMode inp \<noteq> Instant \<longrightarrow> (\<exists>m. fst (runAutonomousAgent w inp) = Returned m))"
proof
  show "fst (snd (dispatch_loop w inp cfg 0 st)) \<le> 6"
    using dispatch_loop_count[of 0 w inp cfg st] by (simp add: MAX_LOOPS_def)
  show "thinkingMode inp \<noteq> Instant \<longrightarrow> (\<exists>m. fst (runAutonomousAgent w inp) = Returned m)"
    using agent_main_returns
    by (auto simp: runAutonomousAgent_def Let_def split: prod.splits)
qed

theorem dispatch_loop_bounded_witness:
  "thinkingMode example_input \<noteq> Instant \<and>
   fst (snd (dispatch_loop looping_world example_input example_settings 0
              (initial_state example_input SIMPLE [] []))) \<le> 6 \<and>
   fst (snd (dispatch_loop looping_world example_input example_settings 0
              (initial_state example_input SIMPLE [] []))) = 6 \<and>
   fst (dispatch_loop looping_world example_input example_settings 0
         (initial_state example_input SIMPLE [] [])) = BoundReached \<and>
   (\<exists>m. fst (runAutonomousAgent looping_world example_input) = Returned m) \<and>
   fst (runAutonomousAgent looping_world example_input) =
     Returned (make_message example_input (concat (replicate 6 ''<DEEP>more</DEEP>'')) None)"
proof -
  have m: "thinkingMode example_input \<noteq> Instant"
    by (simp add: example_input_def)
  have n: "fst (snd (dispatch_loop looping_world example_input example_settings 0
              (initial_state example_input SIMPLE [] []))) = 6"
    by code_simp
  have b: "fst (dispatch_loop looping_world example_input example_settings 0
         (initial_state example_input SIMPLE [] [])) = BoundReached"
    by code_simp
  have r: "fst (runAutonomousAgent looping_world example_input) =
     Returned (make_message example_input (concat (replicate 6 ''<DEEP>more</DEEP>'')) None)"
    by code_simp
  from dispatch_loop_bounded[of looping_world example_input example_settings
      "initial_state example_input SIMPLE [] []"] m n b r
  show ?thesis by blast
qed

section \<open>The precedence of the control tags\<close>








section \<open>Cancellation\<close>

lemma dispatch_loop_enter:
  "c < MAX_LOOPS \<Longrightarrow> \<not> signal_aborted w c \<Longrightarrow>
   dispatch_loop w inp cfg c st =
     (case loop_body w inp cfg (c + 1) st of
        Continue st' \<Rightarrow> dispatch_loop w inp cfg (c + 1) st'
      | Return st' \<Rightarrow> (Finalized, c + 1, st')
      | Throw e st' \<Rightarrow> (Caught e, c + 1, st'))"
  by (subst dispatch_loop.simps) simp

lemma dispatch_loop_aborted:
  "c < MAX_LOOPS \<Longrightarrow> signal_aborted w c \<Longrightarrow> dispatch_loop w inp cfg c st = (AbortedAtTop, c, st)"
  by (subst dispatch_loop.simps) simp

lemma loop_body_abort_seen:
  assumes inv: "fallbackSearchContext st \<noteq> [] \<longrightarrow> (\<exists>c. c \<in> set (finalResponseText st) \<and> \<not> is_ws c)"
    and s: "stream_phase w inp cfg n st = (ended, gen, st2)"
    and e: "ended = AbortSeen \<or> ended = Exhausted"
  shows "loop_body w inp cfg n st = Return st2"
proof -
  from e have nt: "ended \<noteq> TagSeen" by auto
  note k = stream_phase_keeps[OF s]
  from k(5)[OF nt] have "\<not> control_tag_detected gen"
    by (rule no_closing_tag_not_detected)
  then have p: "post_stream w inp cfg n gen st2 = Return (finalize inp st2)"
    by (rule post_stream_no_tag)
  have "fallbackSearchContext st2 \<noteq> [] \<longrightarrow> (\<exists>c. c \<in> set (finalResponseText st2) \<and> \<not> is_ws c)"
    using inv k(1,2) by auto
  then have "finalize inp st2 = st2" by (rule finalize_text)
  with p s e show ?thesis by (auto simp: loop_body_def)
qed

text \<open>
  Claim C3, as amended.  Let the loop have reached the top of an iteration with the
  variables \<open>st\<close> (from an initial state with no text), and let the streaming part of
  that iteration end with the variables \<open>st2\<close>, so that \<open>finalResponseText st2\<close> is the
  text accumulated up to that moment.  If the abort signal is set at the top of the
  iteration, or is seen while the stream is consumed, the agent returns the message
  record whose text is exactly the accumulated text, with the metadata.  If an
  \<^verbatim>\<open>AbortError\<close> is thrown, the agent returns the message record whose text is the
  accumulated text when there is some, and the placeholder
  \<^verbatim>\<open>(Generation stopped by user)\<close> when there is none.  In no case is the result an error
  message or a thrown error.
\<close>

theorem cancellation_message:
  assumes "finalResponseText st0 = []" and "fallbackSearchContext st0 = []"
    and "state_at w inp cfg st0 c = Some st" and "c < MAX_LOOPS"
    and "stream_phase w inp cfg (c + 1) st = (ended, gen, st2)"
  shows "(signal_aborted w c \<longrightarrow>
            finish w inp (dispatch_loop w inp cfg 0 st0) =
              (Returned \<lparr>project_id = project inp, chat_id = chat inp, sender = ''ai'',
                         msg_text = finalResponseText st,
                         groundingMetadata = metadataPayload st\<rparr>, events st)) \<and>
         (\<not> signal_aborted w c \<and> ended = AbortSeen \<longrightarrow>
            finish w inp (dispatch_loop w inp cfg 0 st0) =
              (Returned \<lparr>project_id = project inp, chat_id = chat inp, sender = ''ai'',
                         msg_text = finalResponseText st2,
                         groundingMetadata = metadataPayload st2\<rparr>, events st2)) \<and>
         (\<forall>e. \<not> signal_aborted w c \<and> ended = Threw e \<and> name e = ''AbortError'' \<longrightarrow>
            finish w inp (dispatch_loop w inp cfg 0 st0) =
              (Returned \<lparr>project_id = project inp, chat_id = chat inp, sender = ''ai'',
                         msg_text = (if finalResponseText st2 = [] then ''(Generation stopped by user)''
                                     else finalResponseText st2),
                         groundingMetadata = None\<rparr>, events st2)) \<and>
         finalResponseText st2 = finalResponseText st @ gen"
proof (intro conjI allI impI)
  note start = dispatch_loop_state_at[OF assms(3)]
  note inv = state_at_inv[OF assms(1,2,3)]
  {
    assume "signal_aborted w c"
    with assms(4) start
    show "finish w inp (dispatch_loop w inp cfg 0 st0) =
              (Returned \<lparr>project_id = project inp, chat_id = chat inp, sender = ''ai'',
                         msg_text = finalResponseText st,
                         groundingMetadata = metadataPayload st\<rparr>, events st)"
      by (simp add: dispatch_loop_aborted finish_def make_message_def)
  next
    assume a: "\<not> signal_aborted w c \<and> ended = AbortSeen"
    with loop_body_abort_seen[OF inv assms(5)]
    have "loop_body w inp cfg (c + 1) st = Return st2" by simp
    with a assms(4) start
    show "finish w inp (dispatch_loop w inp cfg 0 st0) =
              (Returned \<lparr>project_id = project inp, chat_id = chat inp, sender = ''ai'',
                         msg_text = finalResponseText st2,
                         groundingMetadata = metadataPayload st2\<rparr>, events st2)"
      by (simp add: dispatch_loop_enter finish_def make_message_def)
  next
    fix e
    assume a: "\<not> signal_aborted w c \<and> ended = Threw e \<and> name e = ''AbortError''"
    with assms(5) have "loop_body w inp cfg (c + 1) st = Throw e st2"
      by (simp add: loop_body_def)
    with a assms(4) start
    show "finish w inp (dispatch_loop w inp cfg 0 st0) =
              (Returned \<lparr>project_id = project inp, chat_id = chat inp, sender = ''ai'',
                         msg_text = (if finalResponseText st2 = [] then ''(Generation stopped by user)''
                                     else finalResponseText st2),
                         groundingMetadata = None\<rparr>, events st2)"
      by (simp add: dispatch_loop_enter finish_def catch_handler_def make_message_def)
  next
    show "finalResponseText st2 = finalResponseText st @ gen"
      by (rule stream_phase_keeps(1)[OF assms(5)])
  }
qed

theorem cancellation_message_witness:
  "finalResponseText (initial_state example_input SIMPLE [] []) = [] \<and>
   fallbackSearchContext (initial_state example_input SIMPLE [] []) = [] \<and>
   state_at cancelled_world example_input example_settings (initial_state example_input SIMPLE [] []) 0
     = Some (initial_state example_input SIMPLE [] []) \<and>
   0 < MAX_LOOPS \<and> \<not> signal_aborted cancelled_world 0 \<and>
   fst (stream_phase cancelled_world example_input example_settings (0 + 1)
          (initial_state example_input SIMPLE [] [])) = AbortSeen \<and>
   fst (finish cancelled_world example_input
          (dispatch_loop cancelled_world example_input example_settings 0
             (initial_state example_input SIMPLE [] []))) =
     Returned \<lparr>project_id = ''p1'', chat_id = ''c1'', sender = ''ai'', msg_text = ''Hel'',
               groundingMetadata = None\<rparr> \<and>
   fst (runAutonomousAgent cancelled_world example_input) =
     Returned \<lparr>project_id = ''p1'', chat_id = ''c1'', sender = ''ai'', msg_text = ''Hel'',
               groundingMetadata = None\<rparr>"
proof -
  let ?st0 = "initial_state example_input SIMPLE [] []"
  let ?sp = "stream_phase cancelled_world example_input example_settings (0 + 1) ?st0"
  have h1: "finalResponseText ?st0 = []" and h2: "fallbackSearchContext ?st0 = []"
    by (simp_all add: initial_state_def)
  have h3: "state_at cancelled_world example_input example_settings ?st0 0 = Some ?st0"
    by simp
  have h4: "0 < MAX_LOOPS" by (simp add: MAX_LOOPS_def)
  have h5: "?sp = (fst ?sp, fst (snd ?sp), snd (snd ?sp))" by simp
  have na: "\<not> signal_aborted cancelled_world 0"
    by (simp add: cancelled_world_def example_world_def)
  have ab: "fst ?sp = AbortSeen" by code_simp
  have tx: "finalResponseText (snd (snd ?sp)) = ''Hel''" by code_simp
  have md: "metadataPayload (snd (snd ?sp)) = None" by code_simp
  have pc: "project example_input = ''p1''" "chat example_input = ''c1''"
    by (simp_all add: example_input_def)
  have run: "fst (runAutonomousAgent cancelled_world example_input) =
     Returned \<lparr>project_id = ''p1'', chat_id = ''c1'', sender = ''ai'', msg_text = ''Hel'',
               groundingMetadata = None\<rparr>" by code_simp
  from cancellation_message[OF h1 h2 h3 h4 h5] na ab
  have "finish cancelled_world example_input
          (dispatch_loop cancelled_world example_input example_settings 0 ?st0) =
        (Returned \<lparr>project_id = project example_input, chat_id = chat example_input, sender = ''ai'',
                   msg_text = finalResponseText (snd (snd ?sp)),
                   groundingMetadata = metadataPayload (snd (snd ?sp))\<rparr>, events (snd (snd ?sp)))"
    by blast
  then have "fst (finish cancelled_world example_input
          (dispatch_loop cancelled_world example_input example_settings 0 ?st0)) =
     Returned \<lparr>project_id = ''p1'', chat_id = ''c1'', sender = ''ai'', msg_text = ''Hel'',
               groundingMetadata = None\<rparr>"
    by (simp only: tx md pc fst_conv)
  with h1 h2 h3 h4 na ab run show ?thesis by blast
qed

text \<open>
  The claim as first stated gives the accumulated text also when it is empty.  A stream
  that throws an \<^verbatim>\<open>AbortError\<close> before its first chunk shows the difference: nothing has
  been accumulated, and the message carries the placeholder.
\<close>

theorem cancellation_placeholder_counterexample:
  "name abort_error = ''AbortError'' \<and>
   fst (stream_phase aborting_world example_input example_settings 1
          (initial_state example_input SIMPLE [] [])) = Threw abort_error \<and>
   finalResponseText (snd (snd (stream_phase aborting_world example_input example_settings 1
          (initial_state example_input SIMPLE [] [])))) = [] \<and>
   fst (runAutonomousAgent aborting_world example_input) =
     Returned \<lparr>project_id = ''p1'', chat_id = ''c1'', sender = ''ai'',
               msg_text = ''(Generation stopped by user)'', groundingMetadata = None\<rparr> \<and>
   ''(Generation stopped by user)'' \<noteq> ([] :: string)"
proof -
  have 1: "name abort_error = ''AbortError''" by (simp add: abort_error_def)
  have 2: "fst (stream_phase aborting_world example_input example_settings 1
          (initial_state example_input SIMPLE [] [])) = Threw abort_error" by code_simp
  have 3: "finalResponseText (snd (snd (stream_phase aborting_world example_input example_settings 1
          (initial_state example_input SIMPLE [] [])))) = []" by code_simp
  have 4: "fst (runAutonomousAgent aborting_world example_input) =
     Returned \<lparr>project_id = ''p1'', chat_id = ''c1'', sender = ''ai'',
               msg_text = ''(Generation stopped by user)'', groundingMetadata = None\<rparr>" by code_simp
  have 5: "''(Generation stopped by user)'' \<noteq> ([] :: string)" by simp
  from 1 2 3 4 5 show ?thesis by blast
qed

section \<open>The search batch\<close>

lemma sublist_app_right: "sublist x b \<Longrightarrow> sublist x (a @ b)"
  by (meson sublist_append_leftI sublist_order.order_trans)

lemma sublist_app_left: "sublist x a \<Longrightarrow> sublist x (a @ b)"
  by (meson sublist_append_rightI sublist_order.order_trans)

lemma sublist_join: "x \<in> set xs \<Longrightarrow> sublist x (join sep xs)"
proof (induction sep xs rule: join.induct)
  case (3 sep y z zs)
  show ?case
  proof (cases "x = y")
    case True
    then show ?thesis by simp
  next
    case False
    with 3 have "sublist x (join sep (z # zs))" by simp
    then show ?thesis by (simp add: sublist_app_right)
  qed
qed auto

lemma sublist_concat: "x \<in> set xs \<Longrightarrow> sublist x (concat xs)"
  by (induction xs) (auto simp: sublist_app_right)

lemma synthesisPrompt_query:
  assumes "q \<in> set queries"
  shows "str_includes (synthesisPrompt p queries ctx) q"
proof -
  from assms have "''- '' @ q \<in> set (map (\<lambda>q. ''- '' @ q) queries)" by simp
  then have "sublist (''- '' @ q) (join ''\<newline>'' (map (\<lambda>q. ''- '' @ q) queries))"
    by (rule sublist_join)
  then have "sublist q (join ''\<newline>'' (map (\<lambda>q. ''- '' @ q) queries))"
    by (meson sublist_append_leftI sublist_order.order_trans)
  then show ?thesis
    unfolding synthesisPrompt_def str_includes_def
    by (intro sublist_app_right sublist_app_left)
qed

lemma synthesisPrompt_context:
  assumes "sublist x ctx"
  shows "str_includes (synthesisPrompt p queries ctx) x"
  using assms unfolding synthesisPrompt_def str_includes_def
  by (intro sublist_app_right sublist_app_left)

lemma render_page_parts:
  "sublist (title p) (render_page (i, p))" "sublist (url p) (render_page (i, p))"
  "sublist (interpolate (content p)) (render_page (i, p))"
  unfolding render_page_def prod.case
  by (intro sublist_app_right sublist_app_left sublist_order.order_refl)+

lemma aggregate_page:
  assumes "p \<in> set pages"
  shows "sublist (title p) (aggregate (q, pages))" "sublist (url p) (aggregate (q, pages))"
    "sublist (interpolate (content p)) (aggregate (q, pages))"
proof -
  from assms obtain i where "i < length pages" "pages ! i = p"
    by (auto simp: in_set_conv_nth)
  then have "(i, p) \<in> set (zip [0..<length pages] pages)"
    by (auto simp: in_set_zip intro!: exI[of _ i])
  then have "render_page (i, p) \<in> set (map render_page (zip [0..<length pages] pages))"
    by (simp only: set_map) (rule imageI)
  then have j: "sublist (render_page (i, p))
      (join ''\<newline>\<newline>'' (map render_page (zip [0..<length pages] pages)))"
    by (rule sublist_join)
  have a: "sublist (render_page (i, p)) (aggregate (q, pages))"
    unfolding aggregate_def prod.case
    using j by (intro sublist_app_right)
  from render_page_parts[of p i] a
  show "sublist (title p) (aggregate (q, pages))" "sublist (url p) (aggregate (q, pages))"
    "sublist (interpolate (content p)) (aggregate (q, pages))"
    by (meson sublist_order.order_trans)+
qed



lemma multi_search_synthesis:
  assumes "ms \<noteq> []" and "shouldUseExternalSearch w (hd (map trim ms)) (modelSupportsSearch cfg) True"
    and "filter (\<lambda>r. snd r \<noteq> []) (parallelResults w n (map trim ms)) \<noteq> []"
  shows "multi_search w inp cfg n ms st =
    Some (st\<lparr>metadataPayload := push_grounding (metadataPayload st)
                (concat (map (\<lambda>res. map (\<lambda>p. Web (url p) (title p)) (snd res))
                   (filter (\<lambda>r. snd r \<noteq> []) (parallelResults w n (map trim ms))))),
             fallbackSearchContext :=
                concat (map aggregate (filter (\<lambda>r. snd r \<noteq> []) (parallelResults w n (map trim ms)))),
             currentPrompt := synthesisPrompt (prompt inp) (map trim ms)
                (concat (map aggregate (filter (\<lambda>r. snd r \<noteq> []) (parallelResults w n (map trim ms))))),
             currentAction := SIMPLE\<rparr>)"
  using assms by (simp add: multi_search_def Let_def)




section \<open>The course of the loop\<close>

text \<open>
  Claim C7, as amended.  Take a run that enters the loop (no text yet, the abort signal
  not set when the loop starts) and whose first request is answered by a stream that is
  delivered without an exception.  If no control tag is matched in the text generated in
  that iteration, the loop ends with its \<^verbatim>\<open>return\<close> after exactly one iteration, and the
  agent returns the message record of the project and the chat, sent by \<^verbatim>\<open>'ai'\<close>, whose
  text is the text accumulated from the stream.  Every iteration runs the default branch,
  the only branch of the \<^verbatim>\<open>switch\<close>.
\<close>

theorem no_tag_single_iteration:
  assumes "finalResponseText st0 = []" and "fallbackSearchContext st0 = []"
    and "\<not> signal_aborted w 0"
    and "stream_phase w inp cfg 1 st0 = (ended, gen, st2)" and "\<forall>e. ended \<noteq> Threw e"
    and "\<not> control_tag_detected gen"
  shows "dispatch_loop w inp cfg 0 st0 = (Finalized, 1, st2) \<and> finalResponseText st2 = gen \<and>
         finish w inp (dispatch_loop w inp cfg 0 st0) =
           (Returned \<lparr>project_id = project inp, chat_id = chat inp, sender = ''ai'',
                      msg_text = gen, groundingMetadata = metadataPayload st2\<rparr>,
            events st2)"
proof -
  note k = stream_phase_keeps[OF assms(4)]
  from k(1) assms(1) have t: "finalResponseText st2 = gen" by simp
  from k(2) assms(2) have "finalize inp st2 = st2" by (simp add: finalize_def)
  with post_stream_no_tag[OF assms(6), of w inp cfg 1 st2]
  have "post_stream w inp cfg 1 gen st2 = Return st2" by simp
  with assms(4,5) have "loop_body w inp cfg 1 st0 = Return st2"
    by (cases ended) (simp_all add: loop_body_def)
  with assms(3) have d: "dispatch_loop w inp cfg 0 st0 = (Finalized, 1, st2)"
    using dispatch_loop_enter[of 0 w inp cfg st0] by (simp add: MAX_LOOPS_def)
  with t show ?thesis by (simp add: finish_def make_message_def)
qed

theorem no_tag_single_iteration_witness:
  "finalResponseText (initial_state example_input SIMPLE [] []) = [] \<and>
   fallbackSearchContext (initial_state example_input SIMPLE [] []) = [] \<and>
   \<not> signal_aborted example_world 0 \<and>
   fst (stream_phase example_world example_input example_settings 1
          (initial_state example_input SIMPLE [] [])) = Exhausted \<and>
   fst (snd (stream_phase example_world example_input example_settings 1
          (initial_state example_input SIMPLE [] []))) = ''Hello'' \<and>
   \<not> control_tag_detected ''Hello'' \<and>
   fst (dispatch_loop example_world example_input example_settings 0
          (initial_state example_input SIMPLE [] [])) = Finalized \<and>
   fst (snd (dispatch_loop example_world example_input example_settings 0
          (initial_state example_input SIMPLE [] []))) = 1 \<and>
   finish example_world example_input
          (dispatch_loop example_world example_input example_settings 0
             (initial_state example_input SIMPLE [] [])) =
     (Returned \<lparr>project_id = ''p1'', chat_id = ''c1'', sender = ''ai'', msg_text = ''Hello'',
                groundingMetadata = None\<rparr>,
      [Call \<lparr>model = ''gemini-2.5-flash'', userText = ''hi'', external_web_search = [],
              thinkingBudget = 0\<rparr>,
       Emit ''Hello'']) \<and>
   runAutonomousAgent example_world example_input =
     (Returned \<lparr>project_id = ''p1'', chat_id = ''c1'', sender = ''ai'', msg_text = ''Hello'',
                groundingMetadata = None\<rparr>,
      [Call \<lparr>model = ''gemini-2.5-flash'', userText = ''hi'', external_web_search = [],
              thinkingBudget = 0\<rparr>,
       Emit ''Hello''])"
proof -
  let ?st0 = "initial_state example_input SIMPLE [] []"
  let ?sp = "stream_phase example_world example_input example_settings 1 ?st0"
  have h1: "finalResponseText ?st0 = []" and h2: "fallbackSearchContext ?st0 = []"
    by (simp_all add: initial_state_def)
  have h3: "\<not> signal_aborted example_world 0" by (simp add: example_world_def)
  have e: "fst ?sp = Exhausted" by code_simp
  have g: "fst (snd ?sp) = ''Hello''" by code_simp
  have md: "metadataPayload (snd (snd ?sp)) = None" by code_simp
  have ev: "events (snd (snd ?sp)) =
      [Call \<lparr>model = ''gemini-2.5-flash'', userText = ''hi'', external_web_search = [],
              thinkingBudget = 0\<rparr>,
       Emit ''Hello'']" by code_simp
  have pc: "project example_input = ''p1''" "chat example_input = ''c1''"
    by (simp_all add: example_input_def)
  have h4: "?sp = (Exhausted, ''Hello'', snd (snd ?sp))"
    using e g by (metis prod.collapse)
  have h5: "\<forall>e. Exhausted \<noteq> Threw e" by simp
  have h6: "\<not> control_tag_detected ''Hello''" by code_simp
  have run: "runAutonomousAgent example_world example_input =
     (Returned \<lparr>project_id = ''p1'', chat_id = ''c1'', sender = ''ai'', msg_text = ''Hello'',
                groundingMetadata = None\<rparr>,
      [Call \<lparr>model = ''gemini-2.5-flash'', userText = ''hi'', external_web_search = [],
              thinkingBudget = 0\<rparr>,
       Emit ''Hello''])" by code_simp
  from no_tag_single_iteration[OF h1 h2 h3 h4 h5 h6]
  have "dispatch_loop example_world example_input example_settings 0 ?st0 =
          (Finalized, 1, snd (snd ?sp))"
    and "finish example_world example_input
          (dispatch_loop example_world example_input example_settings 0 ?st0) =
        (Returned \<lparr>project_id = project example_input, chat_id = chat example_input,
                   sender = ''ai'', msg_text = ''Hello'',
                   groundingMetadata = metadataPayload (snd (snd ?sp))\<rparr>,
         events (snd (snd ?sp)))"
    by blast+
  then have "fst (dispatch_loop example_world example_input example_settings 0 ?st0) = Finalized"
    "fst (snd (dispatch_loop example_world example_input example_settings 0 ?st0)) = 1"
    "finish example_world example_input
          (dispatch_loop example_world example_input example_settings 0 ?st0) =
     (Returned \<lparr>project_id = ''p1'', chat_id = ''c1'', sender = ''ai'', msg_text = ''Hello'',
                groundingMetadata = None\<rparr>,
      [Call \<lparr>model = ''gemini-2.5-flash'', userText = ''hi'', external_web_search = [],
              thinkingBudget = 0\<rparr>,
       Emit ''Hello''])"
    by (simp_all only: md ev pc fst_conv snd_conv)
  with h1 h2 h3 e g h6 run show ?thesis by blast
qed

text \<open>
  Without the two conditions on the run the statement fails.  A stream that throws a
  server error after the chunk \<^verbatim>\<open>Hel\<close> has produced a text with no control tag; the
  iteration is left through the exception and the agent returns an error message, not
  the accumulated text.  With the abort signal set before the first iteration the loop
  makes no request and runs no iteration at all.
\<close>

theorem no_tag_failure_counterexample:
  "\<not> signal_aborted partial_stream_world 0 \<and>
   fst (stream_phase partial_stream_world example_input example_settings 1
          (initial_state example_input SIMPLE [] [])) = Threw server_error \<and>
   fst (snd (stream_phase partial_stream_world example_input example_settings 1
          (initial_state example_input SIMPLE [] []))) = ''Hel'' \<and>
   \<not> control_tag_detected ''Hel'' \<and>
   fst (dispatch_loop partial_stream_world example_input example_settings 0
          (initial_state example_input SIMPLE [] [])) = Caught server_error \<and>
   fst (snd (dispatch_loop partial_stream_world example_input example_settings 0
          (initial_state example_input SIMPLE [] []))) = 1 \<and>
   finalResponseText (snd (snd (dispatch_loop partial_stream_world example_input example_settings 0
          (initial_state example_input SIMPLE [] [])))) = ''Hel'' \<and>
   runAutonomousAgent partial_stream_world example_input =
     (Returned \<lparr>project_id = ''p1'', chat_id = ''c1'', sender = ''ai'',
                msg_text = ''An error occurred: Something went wrong.'',
                groundingMetadata = None\<rparr>,
      [Call \<lparr>model = ''gemini-2.5-flash'', userText = ''hi'', external_web_search = [],
              thinkingBudget = 0\<rparr>,
       Emit ''Hel'']) \<and>
   signal_aborted pre_aborted_world 0 \<and>
   dispatch_loop pre_aborted_world example_input example_settings 0
          (initial_state example_input SIMPLE [] []) =
     (AbortedAtTop, 0, initial_state example_input SIMPLE [] []) \<and>
   runAutonomousAgent pre_aborted_world example_input =
     (Returned \<lparr>project_id = ''p1'', chat_id = ''c1'', sender = ''ai'', msg_text = [],
                groundingMetadata = None\<rparr>, [])"
  by (intro conjI; code_simp)

lemma finalize_action: "currentAction (finalize inp st) = currentAction st"
  by (simp add: finalize_def)

lemma post_stream_Return_no_transition:
  assumes "post_stream w inp cfg n gen st = Return st'"
  shows "no_transition w inp cfg n gen st"
  using assms
  by (simp add: post_stream_def tag_transitions_def no_transition_def Let_def
      split: option.splits if_splits)

lemma action_changes_by_tag:
  assumes "currentAction (step_state (loop_body w inp cfg k s)) \<noteq> currentAction s"
  shows "control_tag_detected (fst (snd (stream_phase w inp cfg k s))) \<and>
         (\<exists>s'. loop_body w inp cfg k s = Continue s')"
proof (cases rule: loop_body_cases[of w inp cfg k s])
  case (threw e gen st2)
  with assms stream_phase_keeps(3)[OF threw(1)] show ?thesis by simp
next
  case (streamed ended gen st2)
  note keep = stream_phase_keeps(3)[OF streamed(1)]
  show ?thesis
  proof (cases "post_stream w inp cfg k gen st2")
    case (Continue s')
    from post_stream_Continue(1)[OF this] streamed Continue show ?thesis by simp
  next
    case (Return s')
    from post_stream_Return[OF this] Return streamed assms keep show ?thesis
      by (simp add: finalize_action)
  next
    case (Throw e s')
    with post_stream_not_Throw show ?thesis by blast
  qed
qed

lemma dispatch_loop_exit_cases:
  "c \<le> MAX_LOOPS \<Longrightarrow> dispatch_loop w inp cfg c st = (ex, n, st') \<Longrightarrow>
    (ex = BoundReached \<and> n = MAX_LOOPS) \<or>
    (ex = AbortedAtTop \<and> n < MAX_LOOPS \<and> signal_aborted w n) \<or>
    (ex = Finalized \<and>
       (\<exists>s gen s2. stream_phase w inp cfg n s = (AbortSeen, gen, s2) \<and>
          no_transition w inp cfg n gen s2 \<and> st' = finalize inp s2)) \<or>
    (\<exists>e s gen. ex = Caught e \<and> name e = ''AbortError'' \<and>
       stream_phase w inp cfg n s = (Threw e, gen, st')) \<or>
    (ex = Finalized \<and>
       (\<exists>s ended gen s2. stream_phase w inp cfg n s = (ended, gen, s2) \<and>
          ended \<noteq> AbortSeen \<and> (\<forall>e. ended \<noteq> Threw e) \<and>
          no_transition w inp cfg n gen s2 \<and> st' = finalize inp s2)) \<or>
    (\<exists>e s gen. ex = Caught e \<and> name e \<noteq> ''AbortError'' \<and>
       stream_phase w inp cfg n s = (Threw e, gen, st'))"
proof (induction w inp cfg c st rule: dispatch_loop.induct)
  case (1 w inp cfg loopCount st)
  show ?case
  proof (cases "loopCount < MAX_LOOPS")
    case False
    then have "dispatch_loop w inp cfg loopCount st = (BoundReached, loopCount, st)"
      by (subst dispatch_loop.simps) simp
    with False "1.prems" show ?thesis by auto
  next
    case lt: True
    show ?thesis
    proof (cases "signal_aborted w loopCount")
      case True
      with lt "1.prems"(2) show ?thesis by (simp add: dispatch_loop_aborted)
    next
      case False
      note enter = dispatch_loop_enter[OF lt False, of inp cfg st]
      show ?thesis
      proof (cases rule: loop_body_cases[of w inp cfg "loopCount + 1" st])
        case (threw e gen st2)
        with enter "1.prems"(2) have "ex = Caught e" "n = loopCount + 1" "st' = st2" by simp_all
        with threw(1) show ?thesis by (cases "name e = ''AbortError''") blast+
      next
        case (streamed ended gen st2)
        show ?thesis
        proof (cases "post_stream w inp cfg (loopCount + 1) gen st2")
          case (Continue s')
          with streamed have b: "loop_body w inp cfg (loopCount + 1) st = Continue s'" by simp
          with enter "1.prems"(2) have "dispatch_loop w inp cfg (loopCount + 1) s' = (ex, n, st')"
            by simp
          from "1.IH"[OF lt False b _ this] lt show ?thesis by simp
        next
          case (Return s')
          with streamed enter "1.prems"(2) have "ex = Finalized" "n = loopCount + 1" "st' = s'"
            by simp_all
          with post_stream_Return_no_transition[OF Return] post_stream_Return[OF Return]
            streamed(1,2)
          show ?thesis by (cases "ended = AbortSeen") blast+
        next
          case (Throw e s')
          with post_stream_not_Throw[of w inp cfg "loopCount + 1" gen st2 e s']
          show ?thesis by simp
        qed
      qed
    qed
  qed
qed

lemma loop_start_action:
  assumes "loop_start w inp mo na su tb evs = Inr (cfg0, st0)"
  shows "route w = Inr (currentAction st0)"
  using assms
  by (auto simp: loop_start_def initial_state_def split: sum.splits prod.splits option.splits)

text \<open>
  Claim C9, as amended.  The loop starts with \<^verbatim>\<open>currentAction\<close> equal to the router's
  classification.  An iteration changes it only when a control tag is matched in the
  text generated in that iteration, and the loop then continues.  The loop is left in
  one of four ways: the bound is exhausted (\<^verbatim>\<open>loopCount\<close> is 6); cancellation is
  observed (the abort signal at the top of an iteration, the abort signal during the
  stream of an iteration that then finalizes, or an \<^verbatim>\<open>AbortError\<close>); an iteration finds
  no control-tag transition that applies to its text and finalizes; or the request or
  the stream of an iteration throws another error (the agent's \<^verbatim>\<open>catch\<close> clause then
  builds the message).
\<close>

theorem dispatch_loop_exits:
  assumes "c \<le> MAX_LOOPS" and "dispatch_loop w inp cfg c st = (ex, n, st')"
  shows "(\<forall>cfg0 st0. loop_start w inp mo na su tb evs = Inr (cfg0, st0) \<longrightarrow>
        route w = Inr (currentAction st0) \<and>
        agent_main w inp mo na su tb evs = finish w inp (dispatch_loop w inp cfg0 0 st0)) \<and>
    (\<forall>k s. currentAction (step_state (loop_body w inp cfg k s)) \<noteq> currentAction s \<longrightarrow>
        control_tag_detected (fst (snd (stream_phase w inp cfg k s))) \<and>
        (\<exists>s'. loop_body w inp cfg k s = Continue s')) \<and>
    ((ex = BoundReached \<and> n = MAX_LOOPS) \<or>
     (ex = AbortedAtTop \<and> n < MAX_LOOPS \<and> signal_aborted w n) \<or>
     (ex = Finalized \<and>
       (\<exists>s gen s2. stream_phase w inp cfg n s = (AbortSeen, gen, s2) \<and>
          no_transition w inp cfg n gen s2 \<and> st' = finalize inp s2)) \<or>
     (\<exists>e s gen. ex = Caught e \<and> name e = ''AbortError'' \<and>
        stream_phase w inp cfg n s = (Threw e, gen, st')) \<or>
     (ex = Finalized \<and>
       (\<exists>s ended gen s2. stream_phase w inp cfg n s = (ended, gen, s2) \<and>
          ended \<noteq> AbortSeen \<and> (\<forall>e. ended \<noteq> Threw e) \<and>
          no_transition w inp cfg n gen s2 \<and> st' = finalize inp s2)) \<or>
     (\<exists>e s gen. ex = Caught e \<and> name e \<noteq> ''AbortError'' \<and>
        stream_phase w inp cfg n s = (Threw e, gen, st')))"
proof (intro conjI allI impI)
  fix cfg0 st0
  assume l: "loop_start w inp mo na su tb evs = Inr (cfg0, st0)"
  from loop_start_action[OF l] show "route w = Inr (currentAction st0)" .
  from l show "agent_main w inp mo na su tb evs = finish w inp (dispatch_loop w inp cfg0 0 st0)"
    by (simp add: agent_main_def)
next
  fix k s
  assume "currentAction (step_state (loop_body w inp cfg k s)) \<noteq> currentAction s"
  then show "control_tag_detected (fst (snd (stream_phase w inp cfg k s)))"
    and "\<exists>s'. loop_body w inp cfg k s = Continue s'"
    using action_changes_by_tag by blast+
next
  from dispatch_loop_exit_cases[OF assms]
  show "(ex = BoundReached \<and> n = MAX_LOOPS) \<or>
     (ex = AbortedAtTop \<and> n < MAX_LOOPS \<and> signal_aborted w n) \<or>
     (ex = Finalized \<and>
       (\<exists>s gen s2. stream_phase w inp cfg n s = (AbortSeen, gen, s2) \<and>
          no_transition w inp cfg n gen s2 \<and> st' = finalize inp s2)) \<or>
     (\<exists>e s gen. ex = Caught e \<and> name e = ''AbortError'' \<and>
        stream_phase w inp cfg n s = (Threw e, gen, st')) \<or>
     (ex = Finalized \<and>
       (\<exists>s ended gen s2. stream_phase w inp cfg n s = (ended, gen, s2) \<and>
          ended \<noteq> AbortSeen \<and> (\<forall>e. ended \<noteq> Threw e) \<and>
          no_transition w inp cfg n gen s2 \<and> st' = finalize inp s2)) \<or>
     (\<exists>e s gen. ex = Caught e \<and> name e \<noteq> ''AbortError'' \<and>
        stream_phase w inp cfg n s = (Threw e, gen, st'))" .
qed

theorem dispatch_loop_exits_witness:
  "0 \<le> MAX_LOOPS \<and>
   loop_start study_routed_world example_input ''gemini-2.5-flash'' True True 0 [] =
     Inr (example_settings, initial_state example_input STUDY [] []) \<and>
   route study_routed_world = Inr STUDY \<and>
   currentAction (initial_state example_input STUDY [] []) = STUDY \<and>
   agent_main study_routed_world example_input ''gemini-2.5-flash'' True True 0 [] =
     finish study_routed_world example_input
       (dispatch_loop study_routed_world example_input example_settings 0
          (initial_state example_input STUDY [] [])) \<and>
   fst (dispatch_loop study_routed_world example_input example_settings 0
      (initial_state example_input STUDY [] [])) = Finalized \<and>
   currentAction (snd (snd (dispatch_loop study_routed_world example_input example_settings 0
      (initial_state example_input STUDY [] [])))) = STUDY \<and>
   currentAction (step_state (loop_body looping_world example_input example_settings 1
      (initial_state example_input SIMPLE [] []))) = DEEP_SEARCH \<and>
   currentAction (initial_state example_input SIMPLE [] []) = SIMPLE \<and>
   control_tag_detected (fst (snd (stream_phase looping_world example_input example_settings 1
      (initial_state example_input SIMPLE [] [])))) \<and>
   fst (dispatch_loop looping_world example_input example_settings 0
      (initial_state example_input SIMPLE [] [])) = BoundReached \<and>
   fst (snd (dispatch_loop looping_world example_input example_settings 0
      (initial_state example_input SIMPLE [] []))) = MAX_LOOPS"
proof -
  let ?stS = "initial_state example_input STUDY [] []"
  let ?dS = "dispatch_loop study_routed_world example_input example_settings 0 ?stS"
  let ?st0 = "initial_state example_input SIMPLE [] []"
  let ?d = "dispatch_loop looping_world example_input example_settings 0 ?st0"
  have h1: "0 \<le> MAX_LOOPS" by simp
  have hS: "?dS = (fst ?dS, fst (snd ?dS), snd (snd ?dS))" by simp
  have h2: "?d = (fst ?d, fst (snd ?d), snd (snd ?d))" by simp
  have ls: "loop_start study_routed_world example_input ''gemini-2.5-flash'' True True 0 [] =
     Inr (example_settings, ?stS)" by code_simp
  have aS: "currentAction ?stS = STUDY" by (simp add: initial_state_def)
  have a0: "currentAction ?st0 = SIMPLE" by (simp add: initial_state_def)
  have fS: "fst ?dS = Finalized" by code_simp
  have kS: "currentAction (snd (snd ?dS)) = STUDY" by code_simp
  have ch: "currentAction (step_state (loop_body looping_world example_input example_settings 1 ?st0))
      = DEEP_SEARCH" by code_simp
  have ex: "fst ?d = BoundReached" by code_simp
  note tS = dispatch_loop_exits[where mo = "''gemini-2.5-flash''" and na = True and su = True
      and tb = 0 and evs = "[]", OF h1 hS]
  from tS ls have "route study_routed_world = Inr (currentAction ?stS)" by blast
  with aS have r: "route study_routed_world = Inr STUDY" by simp
  from tS ls have m: "agent_main study_routed_world example_input ''gemini-2.5-flash'' True True 0 [] =
     finish study_routed_world example_input ?dS" by blast
  note t = dispatch_loop_exits[where mo = "[]" and na = True and su = True and tb = 0
      and evs = "[]", OF h1 h2]
  from ch a0 have ne: "currentAction (step_state (loop_body looping_world example_input
      example_settings 1 ?st0)) \<noteq> currentAction ?st0" by simp
  from t ne have b: "control_tag_detected (fst (snd (stream_phase looping_world example_input
      example_settings 1 ?st0)))" by blast
  from t ex have c: "fst (snd ?d) = MAX_LOOPS" by auto
  from h1 ls r aS m fS kS ch a0 b ex c show ?thesis by blast
qed

text \<open>
  The claim as first stated names three exits and lets an iteration finalize only on a
  response without control tag.  A provider that answers with a server error leaves the
  loop through the exception, in the first iteration, with no cancellation and no
  finalization; the agent returns an error message.  And when both searches of a
  response with two \<^verbatim>\<open><SEARCH>\<close> tags fail, the iteration finalizes although control tags
  were detected in its text: no transition applies to them.
\<close>

theorem exception_exit_counterexample:
  "\<not> signal_aborted broken_world 0 \<and>
   fst (dispatch_loop broken_world example_input example_settings 0
      (initial_state example_input SIMPLE [] [])) = Caught server_error \<and>
   fst (snd (dispatch_loop broken_world example_input example_settings 0
      (initial_state example_input SIMPLE [] []))) = 1 \<and>
   name server_error \<noteq> ''AbortError'' \<and>
   fst (dispatch_loop broken_world example_input example_settings 0
      (initial_state example_input SIMPLE [] [])) \<noteq> BoundReached \<and>
   fst (dispatch_loop broken_world example_input example_settings 0
      (initial_state example_input SIMPLE [] [])) \<noteq> AbortedAtTop \<and>
   fst (dispatch_loop broken_world example_input example_settings 0
      (initial_state example_input SIMPLE [] [])) \<noteq> Finalized \<and>
   runAutonomousAgent broken_world example_input =
     (Returned \<lparr>project_id = ''p1'', chat_id = ''c1'', sender = ''ai'',
                msg_text = ''An error occurred: Something went wrong.'',
                groundingMetadata = None\<rparr>,
      [Call \<lparr>model = ''gemini-2.5-flash'', userText = ''hi'', external_web_search = [],
              thinkingBudget = 0\<rparr>]) \<and>
   \<not> signal_aborted failing_search_world 0 \<and>
   \<not> signal_aborted failing_search_world 1 \<and>
   stream_phase failing_search_world example_input example_settings 1
      (initial_state example_input SIMPLE [] []) =
     (TagSeen, ''<SEARCH> a </SEARCH><SEARCH>b</SEARCH>'',
      \<lparr>currentAction = SIMPLE, currentPrompt = ''hi'',
        finalResponseText = ''<SEARCH> a </SEARCH><SEARCH>b</SEARCH>'',
        fallbackSearchContext = [], metadataPayload = None, routing_parameters = None,
        events = [Call \<lparr>model = ''gemini-2.5-flash'', userText = ''hi'',
                          external_web_search = [], thinkingBudget = 0\<rparr>,
                  Emit ''<SEARCH> a </SEARCH><SEARCH>b</SEARCH>'']\<rparr>) \<and>
   control_tag_detected ''<SEARCH> a </SEARCH><SEARCH>b</SEARCH>'' \<and>
   search_matches ''<SEARCH> a </SEARCH><SEARCH>b</SEARCH>'' = ['' a '', ''b''] \<and>
   fst (dispatch_loop failing_search_world example_input example_settings 0
      (initial_state example_input SIMPLE [] [])) = Finalized \<and>
   fst (snd (dispatch_loop failing_search_world example_input example_settings 0
      (initial_state example_input SIMPLE [] []))) = 1 \<and>
   runAutonomousAgent failing_search_world example_input =
     (Returned \<lparr>project_id = ''p1'', chat_id = ''c1'', sender = ''ai'',
                msg_text = ''<SEARCH> a </SEARCH><SEARCH>b</SEARCH>'',
                groundingMetadata = None\<rparr>,
      [Call \<lparr>model = ''gemini-2.5-flash'', userText = ''hi'', external_web_search = [],
              thinkingBudget = 0\<rparr>,
       Emit ''<SEARCH> a </SEARCH><SEARCH>b</SEARCH>''])"
  by (intro conjI; code_simp)

section \<open>Effects of a run and the credential fallback\<close>

lemma on_retry_no_call: "Call r \<notin> set (on_retry cb msg)"
  by (cases cb) (auto simp: on_retry_def)

lemma retry_events_shape:
  "retry_events cb p a \<noteq> [] \<and> is_Call (hd (retry_events cb p a)) \<and>
   (\<forall>r. Call r \<in> set (retry_events cb p a) \<longrightarrow> r = p)"
  using on_retry_no_call[of _ cb] by (simp add: retry_events_def)

lemma retries_calls:
  "Call r \<in> set (concat (map (retry_events cb p) as)) \<Longrightarrow> r = p"
proof (induction as)
  case Nil
  then show ?case by simp
next
  case (Cons a as)
  then show ?case using retry_events_shape[of cb p a] by auto
qed

lemma retries_hd: "is_Call (hd (concat (map (retry_events cb p) as) @ [Call p]))"
proof (cases as)
  case Nil
  then show ?thesis by simp
next
  case (Cons a as')
  then show ?thesis using retry_events_shape[of cb p a] by (simp add: hd_append)
qed

lemma wrapper_events:
  fixes ai :: "nat \<Rightarrow> request \<Rightarrow> js_error + 'g"
  shows "snd (generateContentStreamWithRetry ai params 3 cb) \<noteq> [] \<and>
    is_Call (hd (snd (generateContentStreamWithRetry ai params 3 cb))) \<and>
    (\<forall>r. Call r \<in> set (snd (generateContentStreamWithRetry ai params 3 cb)) \<longrightarrow> r = with_model params)"
proof -
  obtain k where k: "int k \<le> 3" "\<forall>j. 0 \<le> j \<and> j < k \<longrightarrow> quota_failure (ai j (with_model params))"
      "int k < 3 \<longrightarrow> \<not> quota_failure (ai k (with_model params))"
    using retry_loop_exists[of 0 3 ai "with_model params"] by auto
  have "retry_loop ai (with_model params) 3 cb 0 =
      (settled (ai k (with_model params)),
       concat (map (retry_events cb (with_model params)) [0..<k]) @ [Call (with_model params)])"
    using k by (intro retry_loop_settles) auto
  then have eq: "snd (generateContentStreamWithRetry ai params 3 cb) =
      concat (map (retry_events cb (with_model params)) [0..<k]) @ [Call (with_model params)]"
    by (simp add: generateContentStreamWithRetry_def)
  have c: "\<forall>r. Call r \<in> set (concat (map (retry_events cb (with_model params)) [0..<k]) @
      [Call (with_model params)]) \<longrightarrow> r = with_model params"
    using retries_calls[of _ cb "with_model params" "[0..<k]"] by auto
  show ?thesis
    unfolding eq using retries_hd[of cb "with_model params" "[0..<k]"] c by simp
qed

lemma consume_events:
  "consume inp native items gen st = (ended, gen', st') \<Longrightarrow>
   \<exists>es. events st' = events st @ es \<and> (\<forall>x \<in> set es. \<not> is_Call x)"
proof (induction inp native items gen st rule: consume.induct)
  case (3 inp native aborted tx groundingChunks rest generatedThisLoop st)
  show ?case
  proof (cases "aborted \<or> tx = []")
    case True
    with 3 show ?thesis by (auto split: if_splits)
  next
    case False
    let ?st = "st\<lparr>finalResponseText := finalResponseText st @ tx,
                      events := events st @ emit inp tx,
                      metadataPayload :=
                        (if native then
                           (case groundingChunks of
                              None \<Rightarrow> metadataPayload st
                            | Some cs \<Rightarrow> push_grounding (metadataPayload st) cs)
                         else metadataPayload st)\<rparr>"
    have em: "\<forall>x \<in> set (emit inp tx). \<not> is_Call x" by (simp add: emit_def)
    show ?thesis
    proof (cases "closing_tag_seen (generatedThisLoop @ tx)")
      case True
      with False "3.prems" have "events st' = events st @ emit inp tx" by (auto simp: Let_def)
      with em show ?thesis by blast
    next
      case seen: False
      with False "3.prems" have "consume inp native rest (generatedThisLoop @ tx) ?st = (ended, gen', st')"
        by (simp add: Let_def)
      from "3.IH"(1)[OF _ _ refl refl seen this] False
      obtain es where "events st' = events st @ emit inp tx @ es" "\<forall>x \<in> set es. \<not> is_Call x"
        by auto
      with em show ?thesis by (intro exI[of _ "emit inp tx @ es"]) auto
    qed
  qed
qed auto

lemma stream_phase_events:
  assumes "stream_phase w inp cfg n st = (ended, gen, st2)"
  shows "\<exists>es. events st2 = events st @ es \<and> es \<noteq> [] \<and> is_Call (hd es) \<and>
           (\<forall>r. Call r \<in> set es \<longrightarrow> model r = used_model cfg)"
proof -
  let ?params = "\<lparr>model = effective_model cfg, userText = currentPrompt st,
        external_web_search = externalSearchContext cfg, thinkingBudget = budget cfg\<rparr>"
  let ?attempt = "generateContentStreamWithRetry (generateContentStream w n) ?params 3
       (Some (\<lambda>msg. if onStreamChunk inp then [msg] else []))"
  let ?st1 = "st\<lparr>events := events st @ snd ?attempt\<rparr>"
  note we = wrapper_events[of "generateContentStream w n" ?params
      "Some (\<lambda>msg. if onStreamChunk inp then [msg] else [])"]
  have m: "model (with_model ?params) = used_model cfg"
    by (simp add: with_model_def used_model_def)
  have "\<exists>es'. events st2 = events ?st1 @ es' \<and> (\<forall>x \<in> set es'. \<not> is_Call x)"
  proof (cases "fst ?attempt")
    case (Generator g)
    with assms have c: "consume inp (isNative cfg) g [] ?st1 = (ended, gen, st2)"
      by (simp add: stream_phase_def Let_def)
    from consume_events[OF c] show ?thesis .
  next
    case (Rethrow e)
    with assms have "st2 = ?st1" by (auto simp: stream_phase_def Let_def)
    then show ?thesis by simp
  next
    case MaxRetriesExceeded
    with assms have "st2 = ?st1" by (auto simp: stream_phase_def Let_def)
    then show ?thesis by simp
  qed
  then obtain es' where es': "events st2 = events st @ snd ?attempt @ es'" "\<forall>x \<in> set es'. \<not> is_Call x"
    by auto
  have "\<forall>r. Call r \<in> set (snd ?attempt @ es') \<longrightarrow> model r = used_model cfg"
    using we es'(2) m by auto
  with es'(1) we show ?thesis
    by (intro exI[of _ "snd ?attempt @ es'"]) (simp add: hd_append)
qed

lemma finalize_events:
  "\<exists>es. events (finalize inp st) = events st @ es \<and> (\<forall>x \<in> set es. \<not> is_Call x)"
  by (auto simp: finalize_def emit_def)

lemma multi_search_events: "multi_search w inp cfg n ms st = Some st' \<Longrightarrow> events st' = events st"
  by (auto simp: multi_search_def Let_def split: if_splits)

lemma tag_transitions_events:
  "tag_transitions inp gen ms st = Continue st' \<Longrightarrow> events st' = events st"
  by (auto simp: tag_transitions_def split: option.splits if_splits)

lemma post_stream_events:
  "\<exists>es. events (step_state (post_stream w inp cfg n gen st)) = events st @ es \<and>
        (\<forall>x \<in> set es. \<not> is_Call x)"
proof (cases "post_stream w inp cfg n gen st")
  case (Continue st')
  have "events st' = events st"
  proof (cases "multi_search w inp cfg n (search_matches gen) st")
    case None
    with Continue have "tag_transitions inp gen (search_matches gen) st = Continue st'"
      by (simp add: post_stream_def)
    then show ?thesis by (rule tag_transitions_events)
  next
    case (Some s)
    with Continue have "s = st'" by (simp add: post_stream_def)
    with Some show ?thesis by (simp add: multi_search_events)
  qed
  with Continue show ?thesis by simp
next
  case (Return st')
  from post_stream_Return[OF this] Return finalize_events[of inp st] show ?thesis by simp
next
  case (Throw e st')
  with post_stream_not_Throw show ?thesis by blast
qed

lemma loop_body_events:
  "\<exists>es. events (step_state (loop_body w inp cfg n st)) = events st @ es \<and> es \<noteq> [] \<and>
        is_Call (hd es) \<and> (\<forall>r. Call r \<in> set es \<longrightarrow> model r = used_model cfg)"
proof (cases rule: loop_body_cases[of w inp cfg n st])
  case (threw e gen st2)
  from stream_phase_events[OF threw(1)] threw(2) show ?thesis by simp
next
  case (streamed ended gen st2)
  from stream_phase_events[OF streamed(1)] obtain es where
    es: "events st2 = events st @ es" "es \<noteq> []" "is_Call (hd es)"
      "\<forall>r. Call r \<in> set es \<longrightarrow> model r = used_model cfg" by blast
  from post_stream_events[of w inp cfg n gen st2] obtain es' where
    es': "events (step_state (post_stream w inp cfg n gen st2)) = events st2 @ es'"
      "\<forall>x \<in> set es'. \<not> is_Call x" by blast
  have "\<forall>r. Call r \<in> set (es @ es') \<longrightarrow> model r = used_model cfg"
    using es(4) es'(2) by auto
  with es es'(1) streamed(3) show ?thesis
    by (intro exI[of _ "es @ es'"]) (simp add: hd_append)
qed

lemma dispatch_loop_events:
  "\<exists>es. events (snd (snd (dispatch_loop w inp cfg c st))) = events st @ es \<and>
        (es = [] \<or> is_Call (hd es)) \<and> (\<forall>r. Call r \<in> set es \<longrightarrow> model r = used_model cfg)"
proof (induction w inp cfg c st rule: dispatch_loop.induct)
  case (1 w inp cfg loopCount st)
  show ?case
  proof (cases "loopCount < MAX_LOOPS \<and> \<not> signal_aborted w loopCount")
    case False
    then have "snd (snd (dispatch_loop w inp cfg loopCount st)) = st"
      by (subst dispatch_loop.simps) auto
    then show ?thesis by simp
  next
    case True
    from loop_body_events[of w inp cfg "loopCount + 1" st] obtain es where
      es: "events (step_state (loop_body w inp cfg (loopCount + 1) st)) = events st @ es"
        "es \<noteq> []" "is_Call (hd es)" "\<forall>r. Call r \<in> set es \<longrightarrow> model r = used_model cfg" by blast
    show ?thesis
    proof (cases "loop_body w inp cfg (loopCount + 1) st")
      case (Continue st')
      from "1.IH"[OF _ _ Continue] True obtain es' where
        es': "events (snd (snd (dispatch_loop w inp cfg (loopCount + 1) st'))) = events st' @ es'"
          "\<forall>r. Call r \<in> set es' \<longrightarrow> model r = used_model cfg" by auto
      have d: "dispatch_loop w inp cfg loopCount st = dispatch_loop w inp cfg (loopCount + 1) st'"
        using True Continue by (subst dispatch_loop.simps) simp
      have "\<forall>r. Call r \<in> set (es @ es') \<longrightarrow> model r = used_model cfg"
        using es(4) es'(2) by auto
      with es es'(1) Continue d show ?thesis
        by (intro exI[of _ "es @ es'"]) (simp add: hd_append)
    next
      case (Return st')
      then have "snd (snd (dispatch_loop w inp cfg loopCount st)) = st'"
        using True by (subst dispatch_loop.simps) simp
      with es Return show ?thesis by (intro exI[of _ es]) simp
    next
      case (Throw e st')
      then have "snd (snd (dispatch_loop w inp cfg loopCount st)) = st'"
        using True by (subst dispatch_loop.simps) simp
      with es Throw show ?thesis by (intro exI[of _ es]) simp
    qed
  qed
qed

lemma finish_events: "snd (finish w inp r) = events (snd (snd r))"
proof -
  obtain ex n st where r: "r = (ex, n, st)" by (cases r) auto
  show ?thesis by (cases ex) (simp_all add: r finish_def)
qed

lemma marker_events:
  "\<forall>x \<in> set (emit inp (''<SEARCH>'' @ p @ ''</SEARCH>'')). \<not> is_Call x \<and> x \<noteq> Emit FALLBACK_NOTICE"
  by (simp add: emit_def FALLBACK_NOTICE_def)

lemma preflight_search_events:
  "fst (preflight_search w inp su) = [] \<or>
   fst (preflight_search w inp su) = emit inp (''<SEARCH>'' @ prompt inp @ ''</SEARCH>'')"
  by (simp add: preflight_search_def Let_def split: sum.splits)

lemma preflight_events:
  "\<forall>x \<in> set (fst (preflight_search w inp su)). \<not> is_Call x \<and> x \<noteq> Emit FALLBACK_NOTICE"
  using preflight_search_events[of w inp su] marker_events[of inp "prompt inp"] by auto

lemma agent_main_events:
  "\<exists>pre es. snd (agent_main w inp mo na su tb evs) = evs @ pre @ es \<and>
     (\<forall>x \<in> set pre. \<not> is_Call x \<and> x \<noteq> Emit FALLBACK_NOTICE) \<and>
     (es = [] \<or> is_Call (hd es)) \<and>
     (\<forall>r. Call r \<in> set es \<longrightarrow> model r = (if mo = [] then DEFAULT_MODEL else mo))"
proof (cases "route w")
  case (Inl e)
  then have "snd (agent_main w inp mo na su tb evs) = evs" by (simp add: agent_main_def loop_start_def)
  then show ?thesis by (intro exI[of _ "[]"]) simp
next
  case (Inr action)
  obtain sevs meta ctx where p: "preflight_search w inp su = (sevs, meta, ctx)"
    by (cases "preflight_search w inp su") auto
  from preflight_events[of w inp su] p
  have se: "\<forall>x \<in> set sevs. \<not> is_Call x \<and> x \<noteq> Emit FALLBACK_NOTICE" by simp
  show ?thesis
  proof (cases "getContext w")
    case (Some e)
    with Inr p have "snd (agent_main w inp mo na su tb evs) = evs @ sevs @ []"
      by (simp add: agent_main_def loop_start_def)
    with se show ?thesis
      by (intro exI[of _ sevs] exI[of _ "[]"] conjI) simp_all
  next
    case None
    let ?cfg = "\<lparr>effective_model = mo, isNative = na, modelSupportsSearch = su, budget = tb,
                 externalSearchContext = ctx\<rparr>"
    let ?st0 = "initial_state inp action meta (evs @ sevs)"
    have m: "agent_main w inp mo na su tb evs = finish w inp (dispatch_loop w inp ?cfg 0 ?st0)"
      using None Inr p by (simp add: agent_main_def loop_start_def)
    have a: "snd (agent_main w inp mo na su tb evs) =
        events (snd (snd (dispatch_loop w inp ?cfg 0 ?st0)))"
      unfolding m by (rule finish_events)
    from dispatch_loop_events[of w inp ?cfg 0 ?st0] obtain es where
      es: "events (snd (snd (dispatch_loop w inp ?cfg 0 ?st0))) = events ?st0 @ es"
      "es = [] \<or> is_Call (hd es)" "\<forall>r. Call r \<in> set es \<longrightarrow> model r = used_model ?cfg" by blast
    have st0: "events ?st0 = evs @ sevs" by (simp add: initial_state_def)
    have um: "used_model ?cfg = (if mo = [] then DEFAULT_MODEL else mo)"
      by (simp add: used_model_def)
    have eq: "snd (agent_main w inp mo na su tb evs) = evs @ sevs @ es"
      unfolding a es(1) st0 by simp
    from es(3) have calls: "\<forall>r. Call r \<in> set es \<longrightarrow> model r = (if mo = [] then DEFAULT_MODEL else mo)"
      unfolding um .
    show ?thesis
      using eq se es(2) calls by (intro exI[of _ sevs] exI[of _ es] conjI)
  qed
qed

lemma isGoogleModel_default: "isGoogleModel DEFAULT_MODEL"
  by (simp add: isGoogleModel_def DEFAULT_MODEL_def startsWith_def)

lemma select_model_quiet:
  assumes "select_model inp = (m, tb, evs0)" and "\<not> isGoogleModel m"
  shows "evs0 = []"
proof (rule ccontr)
  assume "evs0 \<noteq> []"
  with assms(1) have "m = DEFAULT_MODEL"
    by (simp add: select_model_def Let_def split: if_splits)
  with assms(2) isGoogleModel_default show False by simp
qed

lemma select_model_other:
  assumes "select_model inp = (m, tb, evs0)" and "thinkingMode inp = OtherMode"
    and "input_model inp = Some m'" and "trim m' \<noteq> []"
  shows "m = m'"
proof -
  from assms(4) have "m' \<noteq> []" by (auto simp: trim_def)
  with assms show ?thesis by (simp add: select_model_def Let_def)
qed

lemma takeWhile_until_call:
  assumes "\<forall>x \<in> set pre. \<not> is_Call x" and "es = [] \<or> is_Call (hd es)"
  shows "takeWhile (\<lambda>e. \<not> is_Call e) (pre @ es) = pre"
proof -
  from assms(2) have "takeWhile (\<lambda>e. \<not> is_Call e) es = []"
    by (cases es) auto
  with assms(1) show ?thesis by (simp add: takeWhile_append2)
qed

text \<open>
  Claim C8, as amended.  Outside instant mode, let \<open>m\<close> be the model in effect once the
  thinking mode has had its say (in the ordinary mode this is the selected model itself,
  when it is not blank).  If \<open>m\<close> is not a native Google model, the profile has no
  OpenRouter key and an output callback is present, then the fallback notice is the first
  effect of the run, it is emitted exactly once before the first provider call, and every
  provider call is made with the model \<^verbatim>\<open>gemini-2.5-flash\<close>.
\<close>

theorem credential_fallback:
  assumes "thinkingMode inp \<noteq> Instant" and "select_model inp = (m, tb, evs0)"
    and "\<not> isGoogleModel m" and "\<not> truthy (openrouter_api_key inp)" and "onStreamChunk inp"
  shows "count_list (takeWhile (\<lambda>e. \<not> is_Call e) (snd (runAutonomousAgent w inp)))
           (Emit FALLBACK_NOTICE) = 1 \<and>
         hd (snd (runAutonomousAgent w inp)) = Emit FALLBACK_NOTICE \<and>
         (\<forall>r. Call r \<in> set (snd (runAutonomousAgent w inp)) \<longrightarrow> model r = DEFAULT_MODEL) \<and>
         (thinkingMode inp = OtherMode \<longrightarrow>
            (\<forall>m'. input_model inp = Some m' \<and> trim m' \<noteq> [] \<longrightarrow> m = m'))"
proof -
  let ?N = "Emit FALLBACK_NOTICE"
  let ?su = "isGoogleModel m \<or> str_includes m ''perplexity''"
  have q: "evs0 = []" using select_model_quiet[OF assms(2,3)] .
  have run: "runAutonomousAgent w inp =
      agent_main w inp DEFAULT_MODEL (isGoogleModel m) ?su tb [?N]"
    using assms(1,3,4,5) by (simp add: runAutonomousAgent_def assms(2) q Let_def emit_def)
  from agent_main_events[of w inp DEFAULT_MODEL "isGoogleModel m" ?su tb "[?N]"]
  obtain pre es where tr: "snd (runAutonomousAgent w inp) = [?N] @ pre @ es"
    and pre: "\<forall>x \<in> set pre. \<not> is_Call x \<and> x \<noteq> ?N"
    and es: "es = [] \<or> is_Call (hd es)"
    and calls: "\<forall>r. Call r \<in> set es \<longrightarrow> model r = (if DEFAULT_MODEL = [] then DEFAULT_MODEL else DEFAULT_MODEL)"
    unfolding run by blast
  have nc: "\<forall>x \<in> set ([?N] @ pre). \<not> is_Call x" using pre by simp
  have tw: "takeWhile (\<lambda>e. \<not> is_Call e) (snd (runAutonomousAgent w inp)) = [?N] @ pre"
    using takeWhile_until_call[OF nc es] by (simp add: tr)
  have "?N \<notin> set pre" using pre by blast
  then have "count_list pre ?N = 0" by (simp add: count_list_0_iff)
  then have 1: "count_list (takeWhile (\<lambda>e. \<not> is_Call e) (snd (runAutonomousAgent w inp))) ?N = 1"
    by (simp add: tw)
  have 2: "hd (snd (runAutonomousAgent w inp)) = ?N" by (simp add: tr)
  have 3: "\<forall>r. Call r \<in> set (snd (runAutonomousAgent w inp)) \<longrightarrow> model r = DEFAULT_MODEL"
  proof (intro allI impI)
    fix r assume "Call r \<in> set (snd (runAutonomousAgent w inp))"
    with tr pre have "Call r \<in> set es" by auto
    with calls show "model r = DEFAULT_MODEL" by simp
  qed
  have 4: "thinkingMode inp = OtherMode \<longrightarrow>
            (\<forall>m'. input_model inp = Some m' \<and> trim m' \<noteq> [] \<longrightarrow> m = m')"
    using select_model_other[OF assms(2)] by blast
  from 1 2 3 4 show ?thesis by blast
qed

theorem credential_fallback_witness:
  "thinkingMode other_vendor_input \<noteq> Instant \<and>
   select_model other_vendor_input = (''openai/gpt-4o'', 0, []) \<and>
   \<not> isGoogleModel ''openai/gpt-4o'' \<and> \<not> truthy (openrouter_api_key other_vendor_input) \<and>
   onStreamChunk other_vendor_input \<and>
   count_list (takeWhile (\<lambda>e. \<not> is_Call e) (snd (runAutonomousAgent example_world other_vendor_input)))
     (Emit FALLBACK_NOTICE) = 1 \<and>
   hd (snd (runAutonomousAgent example_world other_vendor_input)) = Emit FALLBACK_NOTICE \<and>
   snd (runAutonomousAgent example_world other_vendor_input) =
     [Emit FALLBACK_NOTICE,
      Call \<lparr>model = ''gemini-2.5-flash'', userText = ''hi'', external_web_search = [], thinkingBudget = 0\<rparr>,
      Emit ''Hello'']"
proof -
  have h1: "thinkingMode other_vendor_input \<noteq> Instant"
    by (simp add: other_vendor_input_def example_input_def)
  have h2: "select_model other_vendor_input = (''openai/gpt-4o'', 0, [])" by code_simp
  have h3: "\<not> isGoogleModel ''openai/gpt-4o''" by code_simp
  have h4: "\<not> truthy (openrouter_api_key other_vendor_input)"
    by (simp add: other_vendor_input_def example_input_def truthy_def)
  have h5: "onStreamChunk other_vendor_input"
    by (simp add: other_vendor_input_def example_input_def)
  have tr: "snd (runAutonomousAgent example_world other_vendor_input) =
     [Emit FALLBACK_NOTICE,
      Call \<lparr>model = ''gemini-2.5-flash'', userText = ''hi'', external_web_search = [], thinkingBudget = 0\<rparr>,
      Emit ''Hello'']" by code_simp
  from credential_fallback[OF h1 h2 h3 h4 h5, of example_world] h1 h2 h3 h4 h5 tr
  show ?thesis by blast
qed

text \<open>
  The claim as first stated speaks of the selected model.  In think mode a selected
  model of another vendor is replaced before the credential check, which then sees a
  native model: the request goes to \<^verbatim>\<open>gemini-2.5-flash\<close>, and no fallback notice is emitted.
\<close>

theorem think_mode_counterexample:
  "input_model think_input = Some ''openai/gpt-4o'' \<and> \<not> isGoogleModel ''openai/gpt-4o'' \<and>
   \<not> truthy (openrouter_api_key think_input) \<and> onStreamChunk think_input \<and>
   thinkingMode think_input = Think \<and>
   Emit FALLBACK_NOTICE \<notin> set (snd (runAutonomousAgent example_world think_input)) \<and>
   snd (runAutonomousAgent example_world think_input) =
     [Call \<lparr>model = ''gemini-2.5-flash'', userText = ''hi'', external_web_search = [],
            thinkingBudget = 2048\<rparr>,
      Emit ''Hello'']"
proof -
  have 1: "input_model think_input = Some ''openai/gpt-4o''"
    by (simp add: think_input_def example_input_def)
  have 2: "\<not> isGoogleModel ''openai/gpt-4o''" by code_simp
  have 3: "\<not> truthy (openrouter_api_key think_input)"
    by (simp add: think_input_def example_input_def truthy_def)
  have 4: "onStreamChunk think_input" "thinkingMode think_input = Think"
    by (simp_all add: think_input_def example_input_def)
  have 5: "snd (runAutonomousAgent example_world think_input) =
     [Call \<lparr>model = ''gemini-2.5-flash'', userText = ''hi'', external_web_search = [],
            thinkingBudget = 2048\<rparr>,
      Emit ''Hello'']" by code_simp
  have 6: "Emit FALLBACK_NOTICE \<notin> set (snd (runAutonomousAgent example_world think_input))"
    unfolding 5 by (simp add: FALLBACK_NOTICE_def)
  from 1 2 3 4 5 6 show ?thesis by blast
qed

section \<open>The follow-up request after a search batch\<close>

lemma post_stream_two_searches:
  assumes "search_matches gen = [c1, c2]"
    and "shouldUseExternalSearch w (trim c1) (modelSupportsSearch cfg) True"
    and "run_query w n 0 (trim c1) = (trim c1, pages1)" and "pages1 \<noteq> []"
    and "run_query w n 1 (trim c2) = (trim c2, pages2)" and "pages2 \<noteq> []"
  shows "\<exists>st'. post_stream w inp cfg n gen st = Continue st' \<and> currentAction st' = SIMPLE \<and>
           currentPrompt st' = synthesisPrompt (prompt inp) [trim c1, trim c2]
             (aggregate (trim c1, pages1) @ aggregate (trim c2, pages2)) \<and>
           str_includes (currentPrompt st') (trim c1) \<and> str_includes (currentPrompt st') (trim c2) \<and>
           str_includes (currentPrompt st') (aggregate (trim c1, pages1)) \<and>
           str_includes (currentPrompt st') (aggregate (trim c2, pages2)) \<and>
           (\<forall>p \<in> set (pages1 @ pages2).
              str_includes (currentPrompt st') (title p) \<and> str_includes (currentPrompt st') (url p) \<and>
              str_includes (currentPrompt st') (interpolate (content p)))"
proof -
  let ?ctx = "aggregate (trim c1, pages1) @ aggregate (trim c2, pages2)"
  let ?prompt = "synthesisPrompt (prompt inp) [trim c1, trim c2] ?ctx"
  have pr: "parallelResults w n (map trim [c1, c2]) = [(trim c1, pages1), (trim c2, pages2)]"
    using assms(3,5) by (simp add: parallelResults_def upt_rec)
  then have v: "filter (\<lambda>r. snd r \<noteq> []) (parallelResults w n (map trim [c1, c2])) =
      [(trim c1, pages1), (trim c2, pages2)]"
    using assms(4,6) by simp
  have "multi_search w inp cfg n [c1, c2] st =
     Some (st\<lparr>metadataPayload := push_grounding (metadataPayload st)
                (concat (map (\<lambda>res. map (\<lambda>p. Web (url p) (title p)) (snd res))
                   [(trim c1, pages1), (trim c2, pages2)])),
             fallbackSearchContext := concat (map aggregate [(trim c1, pages1), (trim c2, pages2)]),
             currentPrompt := synthesisPrompt (prompt inp) (map trim [c1, c2])
                (concat (map aggregate [(trim c1, pages1), (trim c2, pages2)])),
             currentAction := SIMPLE\<rparr>)" (is "_ = Some ?st'")
    using multi_search_synthesis[of "[c1, c2]" w cfg n inp st] assms(2) v by simp
  then have ps: "post_stream w inp cfg n gen st = Continue ?st'"
    by (simp add: post_stream_def Let_def assms(1))
  have cp: "currentPrompt ?st' = ?prompt" by simp
  have q: "str_includes ?prompt (trim c1)" "str_includes ?prompt (trim c2)"
    by (simp_all add: synthesisPrompt_query)
  have a: "str_includes ?prompt (aggregate (trim c1, pages1))"
    "str_includes ?prompt (aggregate (trim c2, pages2))"
    by (intro synthesisPrompt_context sublist_append_rightI sublist_append_leftI)+
  have pg: "str_includes ?prompt (title p) \<and> str_includes ?prompt (url p) \<and>
      str_includes ?prompt (interpolate (content p))" if "p \<in> set (pages1 @ pages2)" for p
  proof (cases "p \<in> set pages1")
    case True
    from aggregate_page[OF this, of "trim c1"] show ?thesis
      by (intro conjI synthesisPrompt_context sublist_app_left)
  next
    case False
    with that have "p \<in> set pages2" by simp
    from aggregate_page[OF this, of "trim c2"] show ?thesis
      by (intro conjI synthesisPrompt_context sublist_app_right)
  qed
  show ?thesis
    apply (rule exI[of _ ?st'])
    apply (simp only: cp)
    using ps q a pg by simp
qed

lemma stream_phase_first_request:
  assumes "stream_phase w inp cfg n st = (ended, gen, st2)"
  shows "\<exists>es. events st2 = events st @
           Call \<lparr>model = used_model cfg, userText = currentPrompt st,
                 external_web_search = externalSearchContext cfg, thinkingBudget = budget cfg\<rparr> # es"
proof -
  let ?params = "\<lparr>model = effective_model cfg, userText = currentPrompt st,
        external_web_search = externalSearchContext cfg, thinkingBudget = budget cfg\<rparr>"
  let ?attempt = "generateContentStreamWithRetry (generateContentStream w n) ?params 3
       (Some (\<lambda>msg. if onStreamChunk inp then [msg] else []))"
  let ?st1 = "st\<lparr>events := events st @ snd ?attempt\<rparr>"
  note we = wrapper_events[of "generateContentStream w n" ?params
      "Some (\<lambda>msg. if onStreamChunk inp then [msg] else [])"]
  have wm: "with_model ?params = \<lparr>model = used_model cfg, userText = currentPrompt st,
        external_web_search = externalSearchContext cfg, thinkingBudget = budget cfg\<rparr>"
    by (simp add: with_model_def used_model_def)
  from we obtain x xs where xs: "snd ?attempt = x # xs" by (cases "snd ?attempt") auto
  with we have "is_Call x" by simp
  then obtain r where r: "x = Call r" by (cases x) simp_all
  with we xs have "r = with_model ?params" by simp
  with xs r wm have at: "snd ?attempt = Call \<lparr>model = used_model cfg, userText = currentPrompt st,
        external_web_search = externalSearchContext cfg, thinkingBudget = budget cfg\<rparr> # xs"
    by simp
  have "\<exists>es'. events st2 = events ?st1 @ es'"
  proof (cases "fst ?attempt")
    case (Generator g)
    with assms have c: "consume inp (isNative cfg) g [] ?st1 = (ended, gen, st2)"
      by (simp add: stream_phase_def Let_def)
    from consume_events[OF c] show ?thesis by blast
  next
    case (Rethrow e)
    with assms have "st2 = ?st1" by (auto simp: stream_phase_def Let_def)
    then show ?thesis by simp
  next
    case MaxRetriesExceeded
    with assms have "st2 = ?st1" by (auto simp: stream_phase_def Let_def)
    then show ?thesis by simp
  qed
  then obtain es' where "events st2 = events st @ snd ?attempt @ es'" by auto
  then show ?thesis by (simp only: at) simp
qed

lemma loop_body_first_request:
  "\<exists>es. events (step_state (loop_body w inp cfg n st)) = events st @
     Call \<lparr>model = used_model cfg, userText = currentPrompt st,
           external_web_search = externalSearchContext cfg, thinkingBudget = budget cfg\<rparr> # es"
proof (cases rule: loop_body_cases[of w inp cfg n st])
  case (threw e gen st2)
  from stream_phase_first_request[OF threw(1)] threw(2) show ?thesis by simp
next
  case (streamed ended gen st2)
  from stream_phase_first_request[OF streamed(1)] obtain es where
    es: "events st2 = events st @
     Call \<lparr>model = used_model cfg, userText = currentPrompt st,
           external_web_search = externalSearchContext cfg, thinkingBudget = budget cfg\<rparr> # es"
    by blast
  from post_stream_events[of w inp cfg n gen st2] obtain es' where
    "events (step_state (post_stream w inp cfg n gen st2)) = events st2 @ es'" by blast
  with es streamed(3) show ?thesis by simp
qed

lemma dispatch_loop_first_request:
  assumes "c < MAX_LOOPS" and "\<not> signal_aborted w c"
  shows "\<exists>es. events (snd (snd (dispatch_loop w inp cfg c st))) = events st @
     Call \<lparr>model = used_model cfg, userText = currentPrompt st,
           external_web_search = externalSearchContext cfg, thinkingBudget = budget cfg\<rparr> # es"
proof -
  note enter = dispatch_loop_enter[OF assms, of inp cfg st]
  from loop_body_first_request[of w inp cfg "c + 1" st] obtain es where
    es: "events (step_state (loop_body w inp cfg (c + 1) st)) = events st @
     Call \<lparr>model = used_model cfg, userText = currentPrompt st,
           external_web_search = externalSearchContext cfg, thinkingBudget = budget cfg\<rparr> # es"
    by blast
  show ?thesis
  proof (cases "loop_body w inp cfg (c + 1) st")
    case (Continue s')
    from dispatch_loop_events[of w inp cfg "c + 1" s'] obtain es' where
      "events (snd (snd (dispatch_loop w inp cfg (c + 1) s'))) = events s' @ es'" by blast
    with enter Continue es show ?thesis by simp
  next
    case (Return s')
    with enter es show ?thesis by simp
  next
    case (Throw e s')
    with enter es show ?thesis by simp
  qed
qed

text \<open>
  Claim C6, as amended.  Take an iteration that is begun (the bound not reached, the
  abort signal not set at the top of the loop) and whose stream is delivered without an
  exception.  When its generated text holds exactly the two tags \<^verbatim>\<open><SEARCH>Q1</SEARCH>\<close>
  and \<^verbatim>\<open><SEARCH>Q2</SEARCH>\<close>, the batch is run and both queries (the tag contents without
  surrounding white space) return pages, the iteration ends with \<^verbatim>\<open>continue\<close>, the default
  action and the follow-up prompt.  The prompt contains both queries without their
  surrounding white space, the result block of each query, and in particular the title,
  the address and the content of every page returned.  If the iteration was not the
  sixth and the abort signal is not set at the top of the next one, the loop is entered
  again and its next request to the provider carries that prompt.
\<close>

theorem two_searches_synthesis:
  assumes "c < MAX_LOOPS" and "\<not> signal_aborted w c"
    and "stream_phase w inp cfg (c + 1) st = (ended, gen, st2)" and "\<forall>e. ended \<noteq> Threw e"
    and "search_matches gen = [c1, c2]"
    and "shouldUseExternalSearch w (trim c1) (modelSupportsSearch cfg) True"
    and "run_query w (c + 1) 0 (trim c1) = (trim c1, pages1)" and "pages1 \<noteq> []"
    and "run_query w (c + 1) 1 (trim c2) = (trim c2, pages2)" and "pages2 \<noteq> []"
  shows "\<exists>st'. post_stream w inp cfg (c + 1) gen st2 = Continue st' \<and>
           loop_body w inp cfg (c + 1) st = Continue st' \<and>
           dispatch_loop w inp cfg c st = dispatch_loop w inp cfg (c + 1) st' \<and>
           currentAction st' = SIMPLE \<and>
           currentPrompt st' = synthesisPrompt (prompt inp) [trim c1, trim c2]
             (aggregate (trim c1, pages1) @ aggregate (trim c2, pages2)) \<and>
           str_includes (currentPrompt st') (trim c1) \<and> str_includes (currentPrompt st') (trim c2) \<and>
           str_includes (currentPrompt st') (aggregate (trim c1, pages1)) \<and>
           str_includes (currentPrompt st') (aggregate (trim c2, pages2)) \<and>
           (\<forall>p \<in> set (pages1 @ pages2).
              str_includes (currentPrompt st') (title p) \<and> str_includes (currentPrompt st') (url p) \<and>
              str_includes (currentPrompt st') (interpolate (content p))) \<and>
           (c + 1 < MAX_LOOPS \<and> \<not> signal_aborted w (c + 1) \<longrightarrow>
              (\<exists>es. events (snd (snd (dispatch_loop w inp cfg c st))) = events st' @
                 Call \<lparr>model = used_model cfg,
                       userText = synthesisPrompt (prompt inp) [trim c1, trim c2]
                          (aggregate (trim c1, pages1) @ aggregate (trim c2, pages2)),
                       external_web_search = externalSearchContext cfg,
                       thinkingBudget = budget cfg\<rparr> # es))"
proof -
  from post_stream_two_searches[OF assms(5-10), of inp st2] obtain st' where
    s: "post_stream w inp cfg (c + 1) gen st2 = Continue st'" "currentAction st' = SIMPLE"
      "currentPrompt st' = synthesisPrompt (prompt inp) [trim c1, trim c2]
             (aggregate (trim c1, pages1) @ aggregate (trim c2, pages2))"
      "str_includes (currentPrompt st') (trim c1)" "str_includes (currentPrompt st') (trim c2)"
      "str_includes (currentPrompt st') (aggregate (trim c1, pages1))"
      "str_includes (currentPrompt st') (aggregate (trim c2, pages2))"
      "\<forall>p \<in> set (pages1 @ pages2).
              str_includes (currentPrompt st') (title p) \<and> str_includes (currentPrompt st') (url p) \<and>
              str_includes (currentPrompt st') (interpolate (content p))"
    by blast
  from assms(3,4) s(1) have b: "loop_body w inp cfg (c + 1) st = Continue st'"
    by (cases ended) (simp_all add: loop_body_def)
  with dispatch_loop_enter[OF assms(1,2), of inp cfg st]
  have d: "dispatch_loop w inp cfg c st = dispatch_loop w inp cfg (c + 1) st'" by simp
  have r: "\<exists>es. events (snd (snd (dispatch_loop w inp cfg c st))) = events st' @
                 Call \<lparr>model = used_model cfg,
                       userText = synthesisPrompt (prompt inp) [trim c1, trim c2]
                          (aggregate (trim c1, pages1) @ aggregate (trim c2, pages2)),
                       external_web_search = externalSearchContext cfg,
                       thinkingBudget = budget cfg\<rparr> # es"
    if "c + 1 < MAX_LOOPS" "\<not> signal_aborted w (c + 1)"
    using dispatch_loop_first_request[OF that, of inp cfg st'] by (simp only: d s(3))
  from s b d r show ?thesis by blast
qed

theorem two_searches_synthesis_witness:
  "0 < MAX_LOOPS \<and> \<not> signal_aborted searching_world 0 \<and>
   fst (stream_phase searching_world example_input example_settings 1
          (initial_state example_input SIMPLE [] [])) = TagSeen \<and>
   fst (snd (stream_phase searching_world example_input example_settings 1
          (initial_state example_input SIMPLE [] []))) = ''<SEARCH> a </SEARCH><SEARCH>b</SEARCH>'' \<and>
   search_matches ''<SEARCH> a </SEARCH><SEARCH>b</SEARCH>'' = ['' a '', ''b''] \<and>
   shouldUseExternalSearch searching_world (trim '' a '') (modelSupportsSearch example_settings) True \<and>
   run_query searching_world 1 0 (trim '' a '') = (trim '' a '', [example_page ''a'']) \<and>
   run_query searching_world 1 1 (trim ''b'') = (trim ''b'', [example_page ''b'']) \<and>
   1 < MAX_LOOPS \<and> \<not> signal_aborted searching_world 1 \<and>
   (\<exists>st'. loop_body searching_world example_input example_settings 1
             (initial_state example_input SIMPLE [] []) = Continue st' \<and>
          dispatch_loop searching_world example_input example_settings 0
             (initial_state example_input SIMPLE [] []) =
            dispatch_loop searching_world example_input example_settings 1 st' \<and>
          currentAction st' = SIMPLE \<and>
          currentPrompt st' =
              synthesisPrompt ''hi'' [''a'', ''b'']
                (aggregate (''a'', [example_page ''a'']) @ aggregate (''b'', [example_page ''b''])) \<and>
          str_includes (currentPrompt st') ''a'' \<and> str_includes (currentPrompt st') ''b'' \<and>
          str_includes (currentPrompt st') ''about a'' \<and>
          str_includes (currentPrompt st') ''https://example.org/b'' \<and>
          (\<exists>es. events (snd (snd (dispatch_loop searching_world example_input example_settings 0
                    (initial_state example_input SIMPLE [] [])))) =
             events st' @
             Call \<lparr>model = ''gemini-2.5-flash'', userText =
              synthesisPrompt ''hi'' [''a'', ''b'']
                (aggregate (''a'', [example_page ''a'']) @ aggregate (''b'', [example_page ''b''])),
                   external_web_search = [], thinkingBudget = 0\<rparr> # es)) \<and>
   request_texts (snd (runAutonomousAgent searching_world example_input)) = [''hi'',
              synthesisPrompt ''hi'' [''a'', ''b'']
                (aggregate (''a'', [example_page ''a'']) @ aggregate (''b'', [example_page ''b'']))]"
proof -
  let ?gen = "''<SEARCH> a </SEARCH><SEARCH>b</SEARCH>''"
  let ?st0 = "initial_state example_input SIMPLE [] []"
  let ?sp = "stream_phase searching_world example_input example_settings (0 + 1) ?st0"
  have one: "(0::nat) + 1 = 1" by simp
  have h1: "0 < MAX_LOOPS" by (simp add: MAX_LOOPS_def)
  have h2: "\<not> signal_aborted searching_world 0" by code_simp
  have e: "fst ?sp = TagSeen" by code_simp
  have g: "fst (snd ?sp) = ?gen" by code_simp
  have h3: "?sp = (TagSeen, ?gen, snd (snd ?sp))" using e g by (metis prod.collapse)
  have h4: "\<forall>e. TagSeen \<noteq> Threw e" by simp
  have m: "search_matches ?gen = ['' a '', ''b'']" by code_simp
  have gt: "shouldUseExternalSearch searching_world (trim '' a '') (modelSupportsSearch example_settings) True"
    by code_simp
  have r1: "run_query searching_world (0 + 1) 0 (trim '' a '') = (trim '' a '', [example_page ''a''])"
    by code_simp
  have r2: "run_query searching_world (0 + 1) 1 (trim ''b'') = (trim ''b'', [example_page ''b''])"
    by code_simp
  have ne: "[example_page ''a''] \<noteq> []" "[example_page ''b''] \<noteq> []" by simp_all
  have n1: "0 + 1 < MAX_LOOPS" by (simp add: MAX_LOOPS_def)
  have n2: "\<not> signal_aborted searching_world (0 + 1)" by code_simp
  have t: "trim '' a '' = ''a''" "trim ''b'' = ''b''" by code_simp+
  have pi: "prompt example_input = ''hi''" by (simp add: example_input_def)
  have um: "used_model example_settings = ''gemini-2.5-flash''"
    "externalSearchContext example_settings = []" "budget example_settings = 0"
    by (simp_all add: used_model_def example_settings_def)
  have run: "request_texts (snd (runAutonomousAgent searching_world example_input)) = [''hi'',
              synthesisPrompt ''hi'' [''a'', ''b'']
                (aggregate (''a'', [example_page ''a'']) @ aggregate (''b'', [example_page ''b'']))]"
    by code_simp
  from two_searches_synthesis[OF h1 h2 h3 h4 m gt r1 ne(1) r2 ne(2)] n1 n2
  obtain st' where s: "loop_body searching_world example_input example_settings (0 + 1) ?st0 = Continue st'"
    "dispatch_loop searching_world example_input example_settings 0 ?st0 =
       dispatch_loop searching_world example_input example_settings (0 + 1) st'"
    "currentAction st' = SIMPLE"
    "currentPrompt st' = synthesisPrompt (prompt example_input) [trim '' a '', trim ''b'']
       (aggregate (trim '' a '', [example_page ''a'']) @ aggregate (trim ''b'', [example_page ''b'']))"
    "str_includes (currentPrompt st') (trim '' a '')" "str_includes (currentPrompt st') (trim ''b'')"
    "\<forall>p \<in> set ([example_page ''a''] @ [example_page ''b'']).
        str_includes (currentPrompt st') (title p) \<and> str_includes (currentPrompt st') (url p) \<and>
        str_includes (currentPrompt st') (interpolate (content p))"
    "\<exists>es. events (snd (snd (dispatch_loop searching_world example_input example_settings 0 ?st0))) =
       events st' @
       Call \<lparr>model = used_model example_settings,
             userText = synthesisPrompt (prompt example_input) [trim '' a '', trim ''b'']
               (aggregate (trim '' a '', [example_page ''a'']) @
                aggregate (trim ''b'', [example_page ''b''])),
             external_web_search = externalSearchContext example_settings,
             thinkingBudget = budget example_settings\<rparr> # es"
    by blast
  from s(7) have "str_includes (currentPrompt st') (interpolate (content (example_page ''a'')))"
    "str_includes (currentPrompt st') (url (example_page ''b''))" by simp_all
  then have pg: "str_includes (currentPrompt st') ''about a''"
    "str_includes (currentPrompt st') ''https://example.org/b''"
    by (simp_all add: example_page_def interpolate_def)
  note s' = s(1-6,8)[unfolded t pi um one]
  from e g r1 r2 n1 n2 have f: "fst (stream_phase searching_world example_input example_settings 1 ?st0) = TagSeen"
    "fst (snd (stream_phase searching_world example_input example_settings 1 ?st0)) = ?gen"
    "run_query searching_world 1 0 (trim '' a '') = (trim '' a '', [example_page ''a''])"
    "run_query searching_world 1 1 (trim ''b'') = (trim ''b'', [example_page ''b''])"
    "1 < MAX_LOOPS" "\<not> signal_aborted searching_world 1"
    unfolding one by blast+
  have "\<exists>st'. loop_body searching_world example_input example_settings 1 ?st0 = Continue st' \<and>
          dispatch_loop searching_world example_input example_settings 0 ?st0 =
            dispatch_loop searching_world example_input example_settings 1 st' \<and>
          currentAction st' = SIMPLE \<and>
          currentPrompt st' =
              synthesisPrompt ''hi'' [''a'', ''b'']
                (aggregate (''a'', [example_page ''a'']) @ aggregate (''b'', [example_page ''b''])) \<and>
          str_includes (currentPrompt st') ''a'' \<and> str_includes (currentPrompt st') ''b'' \<and>
          str_includes (currentPrompt st') ''about a'' \<and>
          str_includes (currentPrompt st') ''https://example.org/b'' \<and>
          (\<exists>es. events (snd (snd (dispatch_loop searching_world example_input example_settings 0
                    ?st0))) =
             events st' @
             Call \<lparr>model = ''gemini-2.5-flash'', userText =
              synthesisPrompt ''hi'' [''a'', ''b'']
                (aggregate (''a'', [example_page ''a'']) @ aggregate (''b'', [example_page ''b''])),
                   external_web_search = [], thinkingBudget = 0\<rparr> # es)"
    using s' pg by (intro exI[of _ st'] conjI)
  with h1 h2 f m gt run show ?thesis by blast
qed

text \<open>
  The claim as first stated fails in three ways.  A query written with trailing blanks,
  \<^verbatim>\<open><SEARCH>a  </SEARCH>\<close>, is searched and listed as \<^verbatim>\<open>a\<close>: the prompt does not contain
  the query string of the tag.  When the two tags come in the sixth iteration, the
  prompt is built and the loop ends on its bound: of the six requests made none carries
  it.  And when the abort signal is set while the searches run, the loop is left at the
  top of the next iteration, after the one request of the first.
\<close>

theorem synthesis_reentry_counterexample:
  "search_matches ''<SEARCH>a  </SEARCH><SEARCH>b</SEARCH>'' = [''a  '', ''b''] \<and>
   fst (snd (stream_phase padded_search_world example_input example_settings 1
          (initial_state example_input SIMPLE [] []))) = ''<SEARCH>a  </SEARCH><SEARCH>b</SEARCH>'' \<and>
   run_query padded_search_world 1 0 (trim ''a  '') = (''a'', [example_page ''a'']) \<and>
   run_query padded_search_world 1 1 (trim ''b'') = (''b'', [example_page ''b'']) \<and>
   currentAction (step_state (loop_body padded_search_world example_input example_settings 1
          (initial_state example_input SIMPLE [] []))) = SIMPLE \<and>
   currentPrompt (step_state (loop_body padded_search_world example_input example_settings 1
          (initial_state example_input SIMPLE [] []))) =
              synthesisPrompt ''hi'' [''a'', ''b'']
                (aggregate (''a'', [example_page ''a'']) @ aggregate (''b'', [example_page ''b''])) \<and>
   \<not> str_includes
     (synthesisPrompt ''hi'' [''a'', ''b'']
                (aggregate (''a'', [example_page ''a'']) @ aggregate (''b'', [example_page ''b'']))) ''a  '' \<and>
   fst (snd (stream_phase late_search_world example_input example_settings 6
          (the (state_at late_search_world example_input example_settings
                  (initial_state example_input SIMPLE [] []) 5)))) =
     ''<SEARCH>a</SEARCH><SEARCH>b</SEARCH>'' \<and>
   search_matches ''<SEARCH>a</SEARCH><SEARCH>b</SEARCH>'' = [''a'', ''b''] \<and>
   run_query late_search_world 6 0 ''a'' = (''a'', [example_page ''a'']) \<and>
   run_query late_search_world 6 1 ''b'' = (''b'', [example_page ''b'']) \<and>
   fst (dispatch_loop late_search_world example_input example_settings 0
          (initial_state example_input SIMPLE [] [])) = BoundReached \<and>
   fst (snd (dispatch_loop late_search_world example_input example_settings 0
          (initial_state example_input SIMPLE [] []))) = 6 \<and>
   currentPrompt (snd (snd (dispatch_loop late_search_world example_input example_settings 0
          (initial_state example_input SIMPLE [] [])))) =
              synthesisPrompt ''hi'' [''a'', ''b'']
                (aggregate (''a'', [example_page ''a'']) @ aggregate (''b'', [example_page ''b''])) \<and>
   request_texts (snd (runAutonomousAgent late_search_world example_input)) =
     [''hi'', ''more'', ''more'', ''more'', ''more'', ''more''] \<and>
   \<not> signal_aborted cancel_after_search_world 0 \<and>
   signal_aborted cancel_after_search_world 1 \<and>
   fst (snd (stream_phase cancel_after_search_world example_input example_settings 1
          (initial_state example_input SIMPLE [] []))) = ''<SEARCH> a </SEARCH><SEARCH>b</SEARCH>'' \<and>
   run_query cancel_after_search_world 1 0 (trim '' a '') = (''a'', [example_page ''a'']) \<and>
   run_query cancel_after_search_world 1 1 (trim ''b'') = (''b'', [example_page ''b'']) \<and>
   fst (dispatch_loop cancel_after_search_world example_input example_settings 0
          (initial_state example_input SIMPLE [] [])) = AbortedAtTop \<and>
   fst (snd (dispatch_loop cancel_after_search_world example_input example_settings 0
          (initial_state example_input SIMPLE [] []))) = 1 \<and>
   currentPrompt (snd (snd (dispatch_loop cancel_after_search_world example_input example_settings 0
          (initial_state example_input SIMPLE [] [])))) =
              synthesisPrompt ''hi'' [''a'', ''b'']
                (aggregate (''a'', [example_page ''a'']) @ aggregate (''b'', [example_page ''b''])) \<and>
   request_texts (snd (runAutonomousAgent cancel_after_search_world example_input)) = [''hi'']"
  by (intro conjI; code_simp)

end
